theory Spec2Isabelle
  imports Main
begin

section \<open>Values of the script\<close>

text \<open>
  The configuration is what \<^verbatim>\<open>json.load\<close> returns: a JSON value. Numbers are
  integers here (no claim depends on a float). The pairs of \<open>JObj\<close> are the items of a
  Python dict, so their keys are distinct.
\<close>

datatype json =
    JNull
  | JBool bool
  | JNum int
  | JStr string
  | JArr "json list"
  | JObj "(string \<times> json) list"

text \<open>
  Exceptions. \<open>AssertionError\<close> carries the message of the \<^verbatim>\<open>assert\<close>,
  \<open>KeyError\<close> the key, \<open>Raised\<close> the class name of an exception of a library
  (the HTTP client, the archive writer, the JSON reader).
\<close>

datatype exn =
    KeyError string
  | TypeError
  | AttributeError
  | ValueError string
  | AssertionError string
  | RuntimeError string
  | Raised string

text \<open>Python truth value of a JSON value, as \<^verbatim>\<open>assert x\<close> and \<^verbatim>\<open>if x\<close> test it.\<close>

fun truthy :: "json \<Rightarrow> bool" where
  "truthy JNull = False"
| "truthy (JBool b) = b"
| "truthy (JNum n) = (n \<noteq> 0)"
| "truthy (JStr s) = (s \<noteq> [])"
| "truthy (JArr xs) = (xs \<noteq> [])"
| "truthy (JObj kv) = (kv \<noteq> [])"

text \<open>\<^verbatim>\<open>config[key]\<close>: a dict raises KeyError on a missing key; no other JSON value
  can be indexed by a string.\<close>

fun subscript :: "json \<Rightarrow> string \<Rightarrow> exn + json" where
  "subscript (JObj kv) k = (case map_of kv k of None \<Rightarrow> Inl (KeyError k) | Some v \<Rightarrow> Inr v)"
| "subscript _ k = Inl TypeError"

text \<open>\<^verbatim>\<open>len(x)\<close>.\<close>

fun py_len :: "json \<Rightarrow> exn + nat" where
  "py_len (JStr s) = Inr (length s)"
| "py_len (JArr xs) = Inr (length xs)"
| "py_len (JObj kv) = Inr (length kv)"
| "py_len _ = Inl TypeError"

text \<open>\<^verbatim>\<open>for url in urls\<close>: a list yields its elements, a string its characters,
  a dict its keys.\<close>

fun py_iter :: "json \<Rightarrow> exn + json list" where
  "py_iter (JArr xs) = Inr xs"
| "py_iter (JStr s) = Inr (map (\<lambda>c. JStr [c]) s)"
| "py_iter (JObj kv) = Inr (map (\<lambda>p. JStr (fst p)) kv)"
| "py_iter _ = Inl TypeError"

section \<open>The standard library's URL parser and \<^verbatim>\<open>os.path.basename\<close>\<close>

text \<open>
  \<^verbatim>\<open>urllib.parse.urlparse\<close> and \<^verbatim>\<open>posixpath.basename\<close> are not code of the
  repository; they are modelled after CPython 3.11 (\<^verbatim>\<open>Lib/urllib/parse.py\<close>,
  \<^verbatim>\<open>Lib/posixpath.py\<close>), line by line. Strings are lists of 8-bit characters, on which
  \<^verbatim>\<open>_checknetloc\<close> never raises. The validation of a bracketed host
  (\<^verbatim>\<open>_check_bracketed_host\<close>, through the \<^verbatim>\<open>ipaddress\<close> module) is a parameter
  \<open>host_ok\<close>.
\<close>

definition c0_control_or_space :: "char \<Rightarrow> bool" where
  "c0_control_or_space c = ((of_char c :: nat) \<le> 32)"

definition unsafe_url_byte :: "char \<Rightarrow> bool" where
  "unsafe_url_byte c = (c = CHR 0x09 \<or> c = CHR 0x0D \<or> c = CHR 0x0A)"

definition ascii_alpha :: "char \<Rightarrow> bool" where
  "ascii_alpha c = (let n = (of_char c :: nat) in (65 \<le> n \<and> n \<le> 90) \<or> (97 \<le> n \<and> n \<le> 122))"

definition ascii_digit :: "char \<Rightarrow> bool" where
  "ascii_digit c = (let n = (of_char c :: nat) in 48 \<le> n \<and> n \<le> 57)"

definition scheme_char :: "char \<Rightarrow> bool" where
  "scheme_char c = (ascii_alpha c \<or> ascii_digit c \<or> c = CHR ''+'' \<or> c = CHR ''-'' \<or> c = CHR ''.'')"

definition lower_char :: "char \<Rightarrow> char" where
  "lower_char c = (let n = (of_char c :: nat) in if 65 \<le> n \<and> n \<le> 90 then char_of (n + 32) else c)"

definition uses_params :: "string list" where
  "uses_params = ['''', ''ftp'', ''hdl'', ''prospero'', ''http'', ''imap'',
                  ''https'', ''shttp'', ''rtsp'', ''rtsps'', ''rtspu'', ''sip'',
                  ''sips'', ''mms'', ''sftp'', ''tel'']"

text \<open>\<^verbatim>\<open>s.split(c, 1)\<close> when \<open>c\<close> occurs in \<open>s\<close>: the text before the first \<open>c\<close> and
  the text after it.\<close>

definition split_once :: "char \<Rightarrow> string \<Rightarrow> string \<times> string" where
  "split_once c s = (takeWhile (\<lambda>x. x \<noteq> c) s, drop 1 (dropWhile (\<lambda>x. x \<noteq> c) s))"

definition netloc_delim :: "char \<Rightarrow> bool" where
  "netloc_delim c = (c = CHR ''/'' \<or> c = CHR ''?'' \<or> c = CHR ''#'')"

text \<open>\<^verbatim>\<open>_splitnetloc(url, 2)\<close>: from position 2 to the earliest of \<^verbatim>\<open>/ ? #\<close>.\<close>

definition splitnetloc :: "string \<Rightarrow> string \<times> string" where
  "splitnetloc url = (takeWhile (\<lambda>c. \<not> netloc_delim c) (drop 2 url),
                      dropWhile (\<lambda>c. \<not> netloc_delim c) (drop 2 url))"

record SplitResult =
  sr_scheme :: string
  sr_netloc :: string
  sr_path :: string
  sr_query :: string
  sr_fragment :: string

definition urlsplit :: "(string \<Rightarrow> bool) \<Rightarrow> string \<Rightarrow> exn + SplitResult" where
  "urlsplit host_ok url0 =
    (let url1 = dropWhile c0_control_or_space url0;
         url2 = filter (\<lambda>c. \<not> unsafe_url_byte c) url1;
         pre = takeWhile (\<lambda>c. c \<noteq> CHR '':'') url2;
         has_scheme = (CHR '':'' \<in> set url2 \<and> pre \<noteq> [] \<and> ascii_alpha (hd url2)
                       \<and> list_all scheme_char pre);
         scheme = (if has_scheme then map lower_char pre else []);
         url3 = (if has_scheme then drop (length pre + 1) url2 else url2);
         has_netloc = (take 2 url3 = ''//'');
         netloc = (if has_netloc then fst (splitnetloc url3) else []);
         url4 = (if has_netloc then snd (splitnetloc url3) else url3)
     in if has_netloc \<and> ((CHR ''['' \<in> set netloc \<and> CHR '']'' \<notin> set netloc)
                          \<or> (CHR '']'' \<in> set netloc \<and> CHR ''['' \<notin> set netloc))
        then Inl (ValueError ''Invalid IPv6 URL'')
        else if has_netloc \<and> CHR ''['' \<in> set netloc \<and> CHR '']'' \<in> set netloc
                \<and> \<not> host_ok (fst (split_once CHR '']'' (snd (split_once CHR ''['' netloc))))
        then Inl (ValueError ''invalid bracketed host'')
        else
          let fragment = (if CHR ''#'' \<in> set url4 then snd (split_once CHR ''#'' url4) else []);
              url5 = (if CHR ''#'' \<in> set url4 then fst (split_once CHR ''#'' url4) else url4);
              query = (if CHR ''?'' \<in> set url5 then snd (split_once CHR ''?'' url5) else []);
              url6 = (if CHR ''?'' \<in> set url5 then fst (split_once CHR ''?'' url5) else url5)
          in Inr \<lparr>sr_scheme = scheme, sr_netloc = netloc, sr_path = url6,
                  sr_query = query, sr_fragment = fragment\<rparr>)"

text \<open>\<^verbatim>\<open>posixpath.basename\<close>: the text after the last \<^verbatim>\<open>/\<close>
  (\<^verbatim>\<open>p[p.rfind('/') + 1:]\<close>).\<close>

definition basename :: "string \<Rightarrow> string" where
  "basename p = rev (takeWhile (\<lambda>c. c \<noteq> CHR ''/'') (rev p))"

text \<open>\<^verbatim>\<open>_splitparams\<close>, called when \<^verbatim>\<open>;\<close> occurs in the path: the search for
  \<^verbatim>\<open>;\<close> starts at the last \<^verbatim>\<open>/\<close>, that is, it runs over the last segment (over
  the whole text when there is no \<^verbatim>\<open>/\<close>).\<close>

definition splitparams :: "string \<Rightarrow> string \<times> string" where
  "splitparams url =
    (let seg = basename url;
         dir = take (length url - length seg) url
     in if CHR '';'' \<in> set seg
        then (dir @ fst (split_once CHR '';'' seg), snd (split_once CHR '';'' seg))
        else (url, []))"

record ParseResult =
  scheme :: string
  netloc :: string
  path :: string
  params :: string
  query :: string
  fragment :: string

definition urlparse :: "(string \<Rightarrow> bool) \<Rightarrow> string \<Rightarrow> exn + ParseResult" where
  "urlparse host_ok url =
    (case urlsplit host_ok url of
       Inl e \<Rightarrow> Inl e
     | Inr s \<Rightarrow>
         let sp = (sr_scheme s \<in> set uses_params \<and> CHR '';'' \<in> set (sr_path s))
         in Inr \<lparr>scheme = sr_scheme s, netloc = sr_netloc s,
                 path = (if sp then fst (splitparams (sr_path s)) else sr_path s),
                 params = (if sp then snd (splitparams (sr_path s)) else []),
                 query = sr_query s, fragment = sr_fragment s\<rparr>)"

text \<open>
  \<^verbatim>\<open>urlparse(url).path\<close> for the loop variable, which is any JSON value. A value that
  is not a string goes through \<^verbatim>\<open>_coerce_args\<close>: a false one is taken as the empty
  text, a true one has no \<^verbatim>\<open>decode\<close> method.
\<close>

definition url_path :: "(string \<Rightarrow> bool) \<Rightarrow> json \<Rightarrow> exn + string" where
  "url_path host_ok url =
    (case url of
       JStr s \<Rightarrow> (case urlparse host_ok s of Inl e \<Rightarrow> Inl e | Inr u \<Rightarrow> Inr (path u))
     | _ \<Rightarrow> if truthy url then Inl AttributeError else Inr [])"

text \<open>Lines 132-138 of \<^verbatim>\<open>run\<close>: the name of the archive entry of a URL.\<close>

definition entry_name :: "(string \<Rightarrow> bool) \<Rightarrow> json \<Rightarrow> exn + string" where
  "entry_name host_ok url =
    (case url_path host_ok url of
       Inl e \<Rightarrow> Inl e
     | Inr p \<Rightarrow> Inr (if basename p = [] then ''index.html'' else basename p))"

section \<open>The world outside the script\<close>

text \<open>
  A response of the HTTP client (\<^verbatim>\<open>requests.Response\<close>): the fields the script
  reads. \<^verbatim>\<open>Response.ok\<close> is a property of the client library, not a field: it runs
  \<^verbatim>\<open>raise_for_status\<close>, which raises for a status code from 400 to 599 and for no
  other.
\<close>

record response =
  status_code :: int
  reason :: string
  text_body :: string

definition ok :: "response \<Rightarrow> bool" where
  "ok r = (\<not> (400 \<le> status_code r \<and> status_code r < 600))"

text \<open>
  Everything the script reads from outside: the directory of the script, the clock (as
  \<^verbatim>\<open>time.strftime\<close> formats it), the file system, the JSON reader, the HTTP
  backend, the random source and the disk the archive is written to. The calls of one
  iteration of the loop are indexed by the position of its URL in the list, so the same
  URL may be answered differently when it is listed twice.
\<close>

record world =
  script_dir :: string
  now :: string
  resolve :: "string \<Rightarrow> string"
  is_dir :: "string \<Rightarrow> bool"
  exists :: "string \<Rightarrow> bool"
  json_load :: "string \<Rightarrow> exn + json"
  http_get :: "nat \<Rightarrow> json \<Rightarrow> json \<Rightarrow> exn + response"
  random_state :: "nat \<Rightarrow> nat"
  write_error :: "nat \<Rightarrow> exn option"
  host_ok :: "string \<Rightarrow> bool"

text \<open>\<^verbatim>\<open>random.randint(a, b)\<close> returns an integer \<open>N\<close> with \<open>a \<le> N \<le> b\<close>; \<open>r\<close>
  is what the generator yields at this call.\<close>

definition randint :: "nat \<Rightarrow> int \<Rightarrow> int \<Rightarrow> int" where
  "randint r a b = a + int (r mod nat (b - a + 1))"

section \<open>Effects\<close>

datatype level = DEBUG | INFO | ERROR

text \<open>What the script does to the world, in order: a call of the logging module (level,
  format, arguments), a sleep, an HTTP GET (URL, headers), the queries of the file
  system, and the opening and closing of the archive.\<close>

datatype event =
    Log level string "json list"
  | Sleep int
  | HttpGet json json
  | Resolve string
  | IsDir string
  | Exists string
  | ZipOpen string
  | ZipClose

text \<open>The archive (\<^verbatim>\<open>zipfile.ZipFile\<close>, mode \<^verbatim>\<open>"w"\<close>): its path, the entries
  written so far in order (name, data), and whether it has been closed.\<close>

record zipfile =
  zip_path :: string
  filelist :: "(string \<times> string) list"
  closed :: bool

record state =
  trace :: "event list"
  archive :: "zipfile option"

definition emit :: "event \<Rightarrow> state \<Rightarrow> state" where
  "emit e st = st\<lparr>trace := trace st @ [e]\<rparr>"

definition logging :: "level \<Rightarrow> string \<Rightarrow> json list \<Rightarrow> state \<Rightarrow> state" where
  "logging l fmt args st = emit (Log l fmt args) st"

text \<open>
  \<^verbatim>\<open>ZipFile.writestr(name, data)\<close> raises ValueError on an archive that is not open,
  otherwise appends one entry; a name already present is written again (the library
  only warns). The disk may fail the write. The library's normalisation of the name (cut
  at a NUL character) is not modelled.
\<close>

definition writestr :: "world \<Rightarrow> nat \<Rightarrow> string \<Rightarrow> string \<Rightarrow> state \<Rightarrow> (exn + unit) \<times> state" where
  "writestr w i name data st =
    (case archive st of
       None \<Rightarrow> (Inl (ValueError ''Attempt to write to ZIP archive that was already closed''), st)
     | Some zf \<Rightarrow>
         if closed zf
         then (Inl (ValueError ''Attempt to write to ZIP archive that was already closed''), st)
         else (case write_error w i of
                 Some e \<Rightarrow> (Inl e, st)
               | None \<Rightarrow> (Inr (), st\<lparr>archive := Some (zf\<lparr>filelist := filelist zf @ [(name, data)]\<rparr>)\<rparr>)))"

text \<open>\<^verbatim>\<open>ZipFile.read(name)\<close> on the archive: the library keeps one entry per name in
  \<^verbatim>\<open>NameToInfo\<close>, the one written last.\<close>

definition zip_read :: "zipfile \<Rightarrow> string \<Rightarrow> string option" where
  "zip_read zf name = map_of (rev (filelist zf)) name"

text \<open>The \<^verbatim>\<open>with zipfile.ZipFile(path, "w", ...) as zf:\<close> statement: the archive is
  created empty, the body runs, and \<^verbatim>\<open>__exit__\<close> closes the archive whether the body
  returned or raised; an exception of the body is raised again after the close.\<close>

definition zip_open :: "string \<Rightarrow> state \<Rightarrow> state" where
  "zip_open p st = emit (ZipOpen p) (st\<lparr>archive := Some \<lparr>zip_path = p, filelist = [], closed = False\<rparr>\<rparr>)"

definition zip_close :: "state \<Rightarrow> state" where
  "zip_close st = emit ZipClose (st\<lparr>archive := map_option (\<lambda>zf. zf\<lparr>closed := True\<rparr>) (archive st)\<rparr>)"

definition with_ZipFile ::
  "string \<Rightarrow> (state \<Rightarrow> (exn + unit) \<times> state) \<Rightarrow> state \<Rightarrow> (exn + unit) \<times> state" where
  "with_ZipFile p body st = (case body (zip_open p st) of (r, st') \<Rightarrow> (r, zip_close st'))"

section \<open>Paths\<close>

text \<open>\<^verbatim>\<open>pathlib.Path\<close> on POSIX, as the text of the path; the library's normalisation
  of the text (doubled or trailing slashes) is not modelled. Only a string makes a path.\<close>

fun Path :: "json \<Rightarrow> exn + string" where
  "Path (JStr s) = Inr s"
| "Path _ = Inl TypeError"

definition is_absolute :: "string \<Rightarrow> bool" where
  "is_absolute p = (take 1 p = ''/'')"

definition joinpath :: "string \<Rightarrow> string \<Rightarrow> string" where
  "joinpath a b = (if is_absolute b then b else a @ ''/'' @ b)"

section \<open>The script\<close>

definition get_check_zipfilename :: "world \<Rightarrow> string \<Rightarrow> state \<Rightarrow> (exn + string) \<times> state" where
  "get_check_zipfilename w datadir st =
    (let filepath = joinpath datadir (now w @ ''.zip'');
         st1 = logging INFO ''filepath: %s'' [JStr (resolve w filepath)] (emit (Resolve filepath) st);
         st2 = emit (Exists filepath) st1
     in if exists w filepath
        then (Inl (AssertionError ''target ZIP must not exist already!''), st2)
        else (Inr filepath, st2))"

definition get_check_datadir :: "world \<Rightarrow> json \<Rightarrow> state \<Rightarrow> (exn + string) \<times> state" where
  "get_check_datadir w config st =
    (case subscript config ''datadir'' of
       Inl e \<Rightarrow> (Inl e, st)
     | Inr v \<Rightarrow>
        (case Path v of
           Inl e \<Rightarrow> (Inl e, st)
         | Inr d \<Rightarrow>
            let datadir = (if \<not> is_absolute d then joinpath (script_dir w) d else d);
                st1 = logging DEBUG ''datadir: %s'' [JStr (resolve w datadir)] (emit (Resolve datadir) st);
                st2 = emit (IsDir datadir) st1
            in if is_dir w datadir
               then (Inr datadir, st2)
               else (Inl (AssertionError ''datadir must be an existing directory!''), st2)))"

text \<open>Each \<^verbatim>\<open>assert config[k], "invalid configuration!"\<close> first indexes the dict, then
  tests the truth value.\<close>

definition assert_key :: "json \<Rightarrow> string \<Rightarrow> exn + unit" where
  "assert_key config k =
    (case subscript config k of
       Inl e \<Rightarrow> Inl e
     | Inr v \<Rightarrow> if truthy v then Inr () else Inl (AssertionError ''invalid configuration!''))"

definition check_config :: "json \<Rightarrow> exn + unit" where
  "check_config config =
    (case assert_key config ''datadir'' of Inl e \<Rightarrow> Inl e | Inr _ \<Rightarrow>
    (case assert_key config ''headers'' of Inl e \<Rightarrow> Inl e | Inr _ \<Rightarrow>
    (case assert_key config ''urls'' of Inl e \<Rightarrow> Inl e | Inr _ \<Rightarrow>
    (case subscript config ''urls'' of Inl e \<Rightarrow> Inl e | Inr urls \<Rightarrow>
    (case py_len urls of Inl e \<Rightarrow> Inl e | Inr n \<Rightarrow>
       if n > 0 then Inr () else Inl (AssertionError ''invalid configuration!''))))))"

text \<open>The body of the \<^verbatim>\<open>for\<close> loop of \<^verbatim>\<open>run\<close>, for the URL at position \<open>i\<close>.\<close>

definition loop_body :: "world \<Rightarrow> bool \<Rightarrow> json \<Rightarrow> nat \<Rightarrow> json \<Rightarrow> state \<Rightarrow> (exn + unit) \<times> state" where
  "loop_body w no_sleep config i url st =
    (let st1 = (if \<not> no_sleep
                then let sleep_time_seconds = randint (random_state w i) 35 621
                     in emit (Sleep sleep_time_seconds)
                          (logging INFO ''random sleep for %d seconds ...'' [JNum sleep_time_seconds] st)
                else st);
         st2 = logging INFO (''HTTP GET '' @ [CHR 0x27] @ ''%s'' @ [CHR 0x27] @ '' ...'') [url] st1
     in (case subscript config ''headers'' of
          Inl e \<Rightarrow> (Inl e, st2)
        | Inr headers \<Rightarrow>
           (let st3 = emit (HttpGet url headers) st2
            in (case http_get w i url headers of
                 Inl e \<Rightarrow> (Inl e, st3)
               | Inr r \<Rightarrow>
                  (let st4 = logging DEBUG ''response status:%d'' [JNum (status_code r)] st3
                   in if ok r
                      then (case url_path (host_ok w) url of
                              Inl e \<Rightarrow> (Inl e, st4)
                            | Inr p \<Rightarrow>
                               (let basename0 = basename p;
                                    st5 = logging DEBUG ''basename: %s'' [JStr basename0] st4;
                                    basename1 = (if basename0 = [] then ''index.html'' else basename0);
                                    st6 = logging DEBUG ''writing %s bytes to ZIP ...''
                                            [JNum (int (length (text_body r)))] st5
                                in writestr w i basename1 (text_body r) st6))
                      else (Inr (), logging ERROR (reason r) [] st4))))))"

fun fetch_loop :: "world \<Rightarrow> bool \<Rightarrow> json \<Rightarrow> nat \<Rightarrow> json list \<Rightarrow> state \<Rightarrow> (exn + unit) \<times> state" where
  "fetch_loop w no_sleep config i [] st = (Inr (), st)"
| "fetch_loop w no_sleep config i (url # urls) st =
    (case loop_body w no_sleep config i url st of
       (Inl e, st') \<Rightarrow> (Inl e, st')
     | (Inr _, st') \<Rightarrow> fetch_loop w no_sleep config (Suc i) urls st')"

definition run :: "world \<Rightarrow> json \<Rightarrow> bool \<Rightarrow> state \<Rightarrow> (exn + unit) \<times> state" where
  "run w config no_sleep st =
    (case check_config config of
       Inl e \<Rightarrow> (Inl e, st)
     | Inr _ \<Rightarrow>
    (case get_check_datadir w config st of
       (Inl e, st1) \<Rightarrow> (Inl e, st1)
     | (Inr datadir, st1) \<Rightarrow>
    (case get_check_zipfilename w datadir st1 of
       (Inl e, st2) \<Rightarrow> (Inl e, st2)
     | (Inr zipfilename, st2) \<Rightarrow>
    (case subscript config ''urls'' of
       Inl e \<Rightarrow> (Inl e, st2)
     | Inr urls \<Rightarrow>
    (case py_len urls of
       Inl e \<Rightarrow> (Inl e, st2)
     | Inr n \<Rightarrow>
        with_ZipFile zipfilename
          (\<lambda>s. case py_iter urls of
                 Inl e \<Rightarrow> (Inl e, s)
               | Inr us \<Rightarrow> fetch_loop w no_sleep config 0 us s)
          (logging INFO ''#URLs: %d'' [JNum (int n)] st2))))))"

text \<open>
  \<^verbatim>\<open>main\<close>, after the command line has been parsed by \<^verbatim>\<open>docopt\<close> and the logging
  sink has been set up: the options that reach the rest of the program are the path of
  the configuration file and \<^verbatim>\<open>--no-sleep\<close>.
\<close>

record arguments =
  arg_config :: string
  arg_nosleep :: bool

definition version_string :: string where
  "version_string = ''WebPagesDownloadToZip 1.1.0 (2022-10-06)''"

definition main :: "world \<Rightarrow> arguments \<Rightarrow> state \<Rightarrow> (exn + unit) \<times> state" where
  "main w a st =
    (let st1 = logging INFO version_string [] st;
         st2 = emit (Exists (arg_config a)) st1;
         config_file = (if \<not> exists w (arg_config a)
                        then joinpath (script_dir w) (arg_config a) else arg_config a);
         st3 = emit (Exists config_file) st2
     in if \<not> exists w config_file
        then (Inl (RuntimeError (''No such config file: '' @ resolve w config_file)),
              emit (Resolve config_file) st3)
        else
          let st4 = logging INFO (''loading config file '' @ [CHR 0x27] @ ''%s'' @ [CHR 0x27] @ '' ...'')
                      [JStr (resolve w config_file)] (emit (Resolve config_file) st3)
          in (case json_load w config_file of
                Inl e \<Rightarrow> (Inl e, st4)
              | Inr config \<Rightarrow> run w config (arg_nosleep a) st4))"

text \<open>\<^verbatim>\<open>sys.exit(main())\<close>: \<^verbatim>\<open>main\<close> returns \<^verbatim>\<open>None\<close>, which exits with status
  0; an exception that leaves \<^verbatim>\<open>main\<close> ends the interpreter with status 1.\<close>

definition exit_code :: "(exn + unit) \<times> state \<Rightarrow> nat" where
  "exit_code res = (case fst res of Inr _ \<Rightarrow> 0 | Inl _ \<Rightarrow> 1)"

definition initial :: state where
  "initial = \<lparr>trace = [], archive = None\<rparr>"

section \<open>An example world\<close>

text \<open>The scenario of the specification: two URLs, the first answered with 200; the
  second is answered with 404 in \<open>world_404\<close>.\<close>

definition example_items :: "(string \<times> json) list" where
  "example_items =
     [(''datadir'', JStr ''data''),
      (''headers'', JObj [(''User-Agent'', JStr ''x'')]),
      (''urls'', JArr [JStr ''https://a.test/page1.html'', JStr ''https://a.test/''])]"

definition example_config :: json where
  "example_config = JObj example_items"

definition world_404 :: world where
  "world_404 =
     \<lparr>script_dir = ''/opt/tool'', now = ''2022-10-06_120000'',
      resolve = (\<lambda>p. p), is_dir = (\<lambda>p. p = ''/opt/tool/data''),
      exists = (\<lambda>p. p = ''config.json''),
      json_load = (\<lambda>p. Inr example_config),
      http_get = (\<lambda>i u h. if i = 0 then Inr \<lparr>status_code = 200, reason = ''OK'', text_body = ''<html>1</html>''\<rparr>
                             else Inr \<lparr>status_code = 404, reason = ''Not Found'', text_body = ''gone''\<rparr>),
      random_state = (\<lambda>i. 1000 + i), write_error = (\<lambda>i. None), host_ok = (\<lambda>h. True)\<rparr>"

text \<open>Both URLs are answered with 200.\<close>

definition world_200 :: world where
  "world_200 = world_404\<lparr>http_get :=
     (\<lambda>i u h. Inr \<lparr>status_code = 200, reason = ''OK'',
                      text_body = (if i = 0 then ''<html>1</html>'' else ''<html>2</html>'')\<rparr>)\<rparr>"

text \<open>The connection of the first request fails; the second URL would be answered
  with 200.\<close>

definition world_down_first :: world where
  "world_down_first = world_404\<lparr>http_get :=
     (\<lambda>i u h. if i = 0 then Inl (Raised ''ConnectionError'')
               else Inr \<lparr>status_code = 200, reason = ''OK'', text_body = ''<html>2</html>''\<rparr>)\<rparr>"

text \<open>The first URL is answered with 200; the connection of the second request fails.\<close>

definition world_down_second :: world where
  "world_down_second = world_404\<lparr>http_get :=
     (\<lambda>i u h. if i = 0 then Inr \<lparr>status_code = 200, reason = ''OK'', text_body = ''<html>1</html>''\<rparr>
               else Inl (Raised ''ConnectionError''))\<rparr>"

text \<open>The server answers the first URL with 304 Not Modified and no body, as it does to
  a conditional request; the second with 200.\<close>

definition world_304 :: world where
  "world_304 = world_404\<lparr>http_get :=
     (\<lambda>i u h. if i = 0 then Inr \<lparr>status_code = 304, reason = ''Not Modified'', text_body = []\<rparr>
               else Inr \<lparr>status_code = 200, reason = ''OK'', text_body = ''<html>2</html>''\<rparr>)\<rparr>"

text \<open>The disk is full at the first write.\<close>

definition world_disk_full :: world where
  "world_disk_full = world_200\<lparr>write_error := (\<lambda>i. if i = 0 then Some (Raised ''OSError'') else None)\<rparr>"

text \<open>The target path of this second already exists.\<close>

definition world_taken :: world where
  "world_taken = world_200\<lparr>exists := (\<lambda>p. p = ''config.json'' \<or> p = ''/opt/tool/data/2022-10-06_120000.zip'')\<rparr>"

text \<open>Two URLs with the same last path segment.\<close>

definition same_name_urls :: "(string \<times> json) list" where
  "same_name_urls =
     [(''datadir'', JStr ''data''),
      (''headers'', JObj [(''User-Agent'', JStr ''x'')]),
      (''urls'', JArr [JStr ''https://a.test/x/page.html'', JStr ''https://b.test/y/page.html''])]"

text \<open>A state in which the archive of the example has just been opened.\<close>

definition opened :: state where
  "opened = zip_open ''/opt/tool/data/2022-10-06_120000.zip'' initial"

definition example_args :: arguments where
  "example_args = \<lparr>arg_config = ''config.json'', arg_nosleep = True\<rparr>"

section \<open>Notions used to state the properties\<close>

text \<open>The events of one iteration up to and including the request: the random sleep
  (unless disabled), the log line and the GET.\<close>

definition pre_get_events :: "world \<Rightarrow> bool \<Rightarrow> nat \<Rightarrow> json \<Rightarrow> json \<Rightarrow> event list" where
  "pre_get_events w no_sleep i url headers =
     (if no_sleep then []
      else [Log INFO ''random sleep for %d seconds ...'' [JNum (randint (random_state w i) 35 621)],
            Sleep (randint (random_state w i) 35 621)])
     @ [Log INFO (''HTTP GET '' @ [CHR 0x27] @ ''%s'' @ [CHR 0x27] @ '' ...'') [url], HttpGet url headers]"

text \<open>The data directory and the target path that \<open>get_check_datadir\<close> and
  \<open>get_check_zipfilename\<close> compute from the configured \<open>datadir\<close>.\<close>

definition datadir_path :: "world \<Rightarrow> string \<Rightarrow> string" where
  "datadir_path w d = (if \<not> is_absolute d then joinpath (script_dir w) d else d)"

definition target_path :: "world \<Rightarrow> string \<Rightarrow> string" where
  "target_path w d = joinpath (datadir_path w d) (now w @ ''.zip'')"

text \<open>The events of a setup that succeeds, up to the opening of the archive.\<close>

definition setup_events :: "world \<Rightarrow> string \<Rightarrow> nat \<Rightarrow> event list" where
  "setup_events w d n =
     [Resolve (datadir_path w d), Log DEBUG ''datadir: %s'' [JStr (resolve w (datadir_path w d))],
      IsDir (datadir_path w d),
      Resolve (target_path w d), Log INFO ''filepath: %s'' [JStr (resolve w (target_path w d))],
      Exists (target_path w d),
      Log INFO ''#URLs: %d'' [JNum (int n)],
      ZipOpen (target_path w d)]"

text \<open>A configuration and a world in which the setup of \<open>run\<close> succeeds: the three
  fields are present and not empty, \<open>datadir\<close> is a string naming an existing directory,
  \<open>urls\<close> is a list, and the target path is free.\<close>

definition ready :: "world \<Rightarrow> (string \<times> json) list \<Rightarrow> string \<Rightarrow> json \<Rightarrow> json list \<Rightarrow> bool" where
  "ready w kv d h us =
     (map_of kv ''datadir'' = Some (JStr d) \<and> d \<noteq> []
      \<and> map_of kv ''headers'' = Some h \<and> truthy h
      \<and> map_of kv ''urls'' = Some (JArr us) \<and> us \<noteq> []
      \<and> is_dir w (datadir_path w d) \<and> \<not> exists w (target_path w d))"

text \<open>No exception arises in the loop over \<open>us\<close> (positions from \<open>i\<close>): every GET returns
  a response, and for every response that is \<open>ok\<close> the URL parses and the disk takes the
  write.\<close>

fun undisturbed :: "world \<Rightarrow> json \<Rightarrow> nat \<Rightarrow> json list \<Rightarrow> bool" where
  "undisturbed w h i [] = True"
| "undisturbed w h i (u # us) =
     ((case http_get w i u h of
         Inl e \<Rightarrow> False
       | Inr r \<Rightarrow> \<not> ok r \<or> (write_error w i = None
                            \<and> (case entry_name (host_ok w) u of Inl e \<Rightarrow> False | Inr n \<Rightarrow> True)))
      \<and> undisturbed w h (Suc i) us)"

text \<open>The entries the archive is to hold: one per URL whose response is \<open>ok\<close>, in the
  order of the list, named by the entry namer, holding the text of the response.\<close>

fun expected_entries :: "world \<Rightarrow> json \<Rightarrow> nat \<Rightarrow> json list \<Rightarrow> (string \<times> string) list" where
  "expected_entries w h i [] = []"
| "expected_entries w h i (u # us) =
     (case http_get w i u h of
        Inl e \<Rightarrow> []
      | Inr r \<Rightarrow> (case entry_name (host_ok w) u of
                   Inl e \<Rightarrow> []
                 | Inr n \<Rightarrow> if ok r then [(n, text_body r)] else []))
     @ expected_entries w h (Suc i) us"

text \<open>Every GET of the loop over \<open>us\<close> returns a response with a status from 200 to 299.\<close>

fun all_2xx :: "world \<Rightarrow> json \<Rightarrow> nat \<Rightarrow> json list \<Rightarrow> bool" where
  "all_2xx w h i [] = True"
| "all_2xx w h i (u # us) =
     ((case http_get w i u h of
         Inl e \<Rightarrow> False
       | Inr r \<Rightarrow> 200 \<le> status_code r \<and> status_code r < 300)
      \<and> all_2xx w h (Suc i) us)"




fun requests :: "event list \<Rightarrow> json list" where
  "requests [] = []"
| "requests (HttpGet u h # es) = u # requests es"
| "requests (e # es) = requests es"


text \<open>Every entry of the archive of a state (if it has one) sits at the root of the
  archive: its name holds no path separator.\<close>

definition at_root :: "state \<Rightarrow> bool" where
  "at_root st =
     (case archive st of
        None \<Rightarrow> True
      | Some zf \<Rightarrow> list_all (\<lambda>e. CHR ''/'' \<notin> set (fst e)) (filelist zf))"

section \<open>Basic facts about the state\<close>

lemma trace_emit [simp]: "trace (emit e st) = trace st @ [e]"
  by (simp add: emit_def)

lemma archive_emit [simp]: "archive (emit e st) = archive st"
  by (simp add: emit_def)

lemma trace_logging [simp]: "trace (logging l f a st) = trace st @ [Log l f a]"
  by (simp add: logging_def)

lemma archive_logging [simp]: "archive (logging l f a st) = archive st"
  by (simp add: logging_def)

lemma writestr_trace [simp]: "trace (snd (writestr w i n d st)) = trace st"
  by (simp add: writestr_def split: option.splits)

lemma writestr_archive:
  "archive st = Some zf \<Longrightarrow>
   \<exists>zf'. archive (snd (writestr w i n d st)) = Some zf'
         \<and> zip_path zf' = zip_path zf \<and> closed zf' = closed zf"
  by (simp add: writestr_def split: option.splits)

section \<open>One iteration of the loop\<close>

lemma loop_body_raise:
  assumes "subscript config ''headers'' = Inr h" and "http_get w i url h = Inl e"
  shows "loop_body w ns config i url st = (Inl e, st\<lparr>trace := trace st @ pre_get_events w ns i url h\<rparr>)"
  using assms by (simp add: loop_body_def Let_def pre_get_events_def emit_def logging_def)

lemma loop_body_not_ok:
  assumes "subscript config ''headers'' = Inr h" and "http_get w i url h = Inr r" and "\<not> ok r"
  shows "loop_body w ns config i url st =
          (Inr (), st\<lparr>trace := trace st @ pre_get_events w ns i url h
                        @ [Log DEBUG ''response status:%d'' [JNum (status_code r)],
                           Log ERROR (reason r) []]\<rparr>)"
  using assms by (simp add: loop_body_def Let_def pre_get_events_def emit_def logging_def)

lemma loop_body_ok:
  assumes "subscript config ''headers'' = Inr h" and "http_get w i url h = Inr r" and "ok r"
    and "url_path (host_ok w) url = Inr p"
    and "archive st = Some zf" and "\<not> closed zf" and "write_error w i = None"
  shows "loop_body w ns config i url st =
          (Inr (), \<lparr>trace = trace st @ pre_get_events w ns i url h
                       @ [Log DEBUG ''response status:%d'' [JNum (status_code r)],
                          Log DEBUG ''basename: %s'' [JStr (basename p)],
                          Log DEBUG ''writing %s bytes to ZIP ...'' [JNum (int (length (text_body r)))]],
                    archive = Some (zf\<lparr>filelist := filelist zf
                       @ [(if basename p = [] then ''index.html'' else basename p, text_body r)]\<rparr>)\<rparr>)"
  using assms
  by (simp add: loop_body_def Let_def pre_get_events_def emit_def logging_def writestr_def)

lemma entry_name_url_path:
  "entry_name hk url = Inr n \<longleftrightarrow>
   (\<exists>p. url_path hk url = Inr p \<and> n = (if basename p = [] then ''index.html'' else basename p))"
  by (auto simp: entry_name_def split: sum.splits)

lemma loop_body_archive:
  assumes "archive st = Some zf"
  shows "\<exists>zf'. archive (snd (loop_body w ns config i url st)) = Some zf'
           \<and> zip_path zf' = zip_path zf \<and> closed zf' = closed zf"
proof -
  have wr: "\<And>s n d. archive s = Some zf \<Longrightarrow>
              \<exists>zf'. archive (snd (writestr w i n d s)) = Some zf'
                    \<and> zip_path zf' = zip_path zf \<and> closed zf' = closed zf"
    by (rule writestr_archive)
  show ?thesis
    using assms unfolding loop_body_def Let_def
    by (auto split: sum.splits intro!: wr)
qed

section \<open>The whole loop\<close>

lemma fetch_loop_append:
  "fetch_loop w ns config i (xs @ ys) st =
     (case fetch_loop w ns config i xs st of
        (Inl e, st') \<Rightarrow> (Inl e, st')
      | (Inr _, st') \<Rightarrow> fetch_loop w ns config (i + length xs) ys st')"
  by (induction xs arbitrary: i st) (auto split: prod.splits sum.splits)

lemma fetch_loop_archive:
  "archive st = Some zf \<Longrightarrow>
   \<exists>zf'. archive (snd (fetch_loop w ns config i us st)) = Some zf'
         \<and> zip_path zf' = zip_path zf \<and> closed zf' = closed zf"
proof (induction us arbitrary: i st zf)
  case Nil
  then show ?case by simp
next
  case (Cons u us)
  obtain r st1 where b: "loop_body w ns config i u st = (r, st1)"
    by (cases "loop_body w ns config i u st")
  from loop_body_archive [OF Cons.prems, of w ns config i u] b
  obtain zf1 where z1: "archive st1 = Some zf1" "zip_path zf1 = zip_path zf" "closed zf1 = closed zf"
    by auto
  show ?case
  proof (cases r)
    case (Inl e)
    with b z1 show ?thesis by simp
  next
    case (Inr u')
    from Cons.IH [OF z1(1), of "Suc i"] z1 b Inr show ?thesis by auto
  qed
qed

lemma fetch_loop_undisturbed:
  assumes "subscript config ''headers'' = Inr h"
  shows "undisturbed w h i us \<Longrightarrow> archive st = Some zf \<Longrightarrow> \<not> closed zf \<Longrightarrow>
         fst (fetch_loop w ns config i us st) = Inr ()
         \<and> archive (snd (fetch_loop w ns config i us st))
             = Some (zf\<lparr>filelist := filelist zf @ expected_entries w h i us\<rparr>)"
proof (induction us arbitrary: i st zf)
  case Nil
  then show ?case by simp
next
  case (Cons u us)
  from Cons.prems(1) obtain r where r: "http_get w i u h = Inr r"
    and wr: "ok r \<Longrightarrow> write_error w i = None \<and> (\<exists>n. entry_name (host_ok w) u = Inr n)"
    and rest: "undisturbed w h (Suc i) us"
    by (auto split: sum.splits)
  show ?case
  proof (cases "ok r")
    case False
    let ?st1 = "st\<lparr>trace := trace st @ pre_get_events w ns i u h
                        @ [Log DEBUG ''response status:%d'' [JNum (status_code r)],
                           Log ERROR (reason r) []]\<rparr>"
    have b: "loop_body w ns config i u st = (Inr (), ?st1)"
      using assms r False by (rule loop_body_not_ok)
    have a1: "archive ?st1 = Some zf" using Cons.prems(2) by simp
    from Cons.IH [OF rest a1 Cons.prems(3)] b r False show ?thesis
      by (simp split: sum.splits)
  next
    case True
    from wr [OF True] obtain n where we: "write_error w i = None"
      and n: "entry_name (host_ok w) u = Inr n" by blast
    from n obtain p where p: "url_path (host_ok w) u = Inr p"
      and np: "n = (if basename p = [] then ''index.html'' else basename p)"
      by (auto simp: entry_name_url_path)
    let ?zf1 = "zf\<lparr>filelist := filelist zf @ [(n, text_body r)]\<rparr>"
    from loop_body_ok [OF assms r True p Cons.prems(2) Cons.prems(3) we, of ns] np
    obtain st1 where b: "loop_body w ns config i u st = (Inr (), st1)"
      and a1: "archive st1 = Some ?zf1"
      by simp
    have c1: "\<not> closed ?zf1" using Cons.prems(3) by simp
    from Cons.IH [OF rest a1 c1] b r True n show ?thesis
      by simp
  qed
qed

lemma expected_entries_all_2xx:
  "all_2xx w h i us \<Longrightarrow> undisturbed w h i us \<Longrightarrow>
   length (expected_entries w h i us) = length us
   \<and> map (\<lambda>n. Inr n) (map fst (expected_entries w h i us)) = map (entry_name (host_ok w)) us"
  by (induction us arbitrary: i) (auto simp: ok_def split: sum.splits)

section \<open>The setup of \<open>run\<close>\<close>

lemma check_config_ready:
  "ready w kv d h us \<Longrightarrow> check_config (JObj kv) = Inr ()"
  by (simp add: ready_def check_config_def assert_key_def)

lemma get_check_datadir_ready:
  "ready w kv d h us \<Longrightarrow>
   get_check_datadir w (JObj kv) st =
     (Inr (datadir_path w d),
      st\<lparr>trace := trace st @ [Resolve (datadir_path w d),
                               Log DEBUG ''datadir: %s'' [JStr (resolve w (datadir_path w d))],
                               IsDir (datadir_path w d)]\<rparr>)"
  by (simp add: ready_def get_check_datadir_def datadir_path_def Let_def emit_def logging_def)

lemma get_check_zipfilename_free:
  "\<not> exists w (joinpath dd (now w @ ''.zip'')) \<Longrightarrow>
   get_check_zipfilename w dd st =
     (Inr (joinpath dd (now w @ ''.zip'')),
      st\<lparr>trace := trace st @ [Resolve (joinpath dd (now w @ ''.zip'')),
                               Log INFO ''filepath: %s'' [JStr (resolve w (joinpath dd (now w @ ''.zip'')))],
                               Exists (joinpath dd (now w @ ''.zip''))]\<rparr>)"
  by (simp add: get_check_zipfilename_def Let_def emit_def logging_def)

lemma get_check_zipfilename_taken:
  "exists w (joinpath dd (now w @ ''.zip'')) \<Longrightarrow>
   get_check_zipfilename w dd st =
     (Inl (AssertionError ''target ZIP must not exist already!''),
      st\<lparr>trace := trace st @ [Resolve (joinpath dd (now w @ ''.zip'')),
                               Log INFO ''filepath: %s'' [JStr (resolve w (joinpath dd (now w @ ''.zip'')))],
                               Exists (joinpath dd (now w @ ''.zip''))]\<rparr>)"
  by (simp add: get_check_zipfilename_def Let_def emit_def logging_def)

lemma run_ready:
  assumes "ready w kv d h us"
  shows "run w (JObj kv) ns st =
          (case fetch_loop w ns (JObj kv) 0 us
                  \<lparr>trace = trace st @ setup_events w d (length us),
                   archive = Some \<lparr>zip_path = target_path w d, filelist = [], closed = False\<rparr>\<rparr>
           of (r, st') \<Rightarrow> (r, zip_close st'))"
proof -
  have free: "\<not> exists w (joinpath (datadir_path w d) (now w @ ''.zip''))"
    using assms by (simp add: ready_def target_path_def)
  have u: "map_of kv ''urls'' = Some (JArr us)"
    using assms by (simp add: ready_def)
  show ?thesis
    unfolding run_def
    by (cases st)
       (simp add: check_config_ready [OF assms] get_check_datadir_ready [OF assms]
        get_check_zipfilename_free [OF free] u with_ZipFile_def zip_open_def
        setup_events_def target_path_def emit_def logging_def)
qed


section \<open>Sleeps, requests and pacing of a trace\<close>


lemma requests_append: "requests (xs @ ys) = requests xs @ requests ys"
  by (induction xs rule: requests.induct) simp_all

section \<open>A run without an exception\<close>

lemma run_undisturbed:
  assumes "ready w kv d h us" and "undisturbed w h 0 us"
  shows "fst (run w (JObj kv) ns st) = Inr ()
         \<and> archive (snd (run w (JObj kv) ns st))
             = Some \<lparr>zip_path = target_path w d, filelist = expected_entries w h 0 us, closed = True\<rparr>"
proof -
  let ?zf = "\<lparr>zip_path = target_path w d, filelist = [], closed = False\<rparr>"
  let ?st0 = "\<lparr>trace = trace st @ setup_events w d (length us), archive = Some ?zf\<rparr>"
  have hd: "subscript (JObj kv) ''headers'' = Inr h"
    using assms(1) by (simp add: ready_def)
  have a0: "archive ?st0 = Some ?zf" by simp
  have c0: "\<not> closed ?zf" by simp
  obtain r st' where fl: "fetch_loop w ns (JObj kv) 0 us ?st0 = (r, st')"
    by (cases "fetch_loop w ns (JObj kv) 0 us ?st0")
  from fetch_loop_undisturbed [OF hd assms(2) a0 c0, of ns] fl
  have r: "r = Inr ()"
    and a: "archive st' = Some (?zf\<lparr>filelist := filelist ?zf @ expected_entries w h 0 us\<rparr>)"
    by simp_all
  have "run w (JObj kv) ns st = (r, zip_close st')"
    using run_ready [OF assms(1), of ns st] fl by simp
  with r a show ?thesis by (simp add: zip_close_def)
qed

lemma main_loaded:
  assumes "exists w (arg_config a)" and "json_load w (arg_config a) = Inr config"
  shows "main w a st =
           run w config (arg_nosleep a)
             (st\<lparr>trace := trace st @
                  [Log INFO version_string [], Exists (arg_config a), Exists (arg_config a),
                   Resolve (arg_config a),
                   Log INFO (''loading config file '' @ [CHR 0x27] @ ''%s'' @ [CHR 0x27] @ '' ...'')
                     [JStr (resolve w (arg_config a))]]\<rparr>)"
  using assms by (simp add: main_def Let_def emit_def logging_def)

lemma expected_entries_append:
  "expected_entries w h i (xs @ ys)
     = expected_entries w h i xs @ expected_entries w h (i + length xs) ys"
  by (induction xs arbitrary: i) simp_all

section \<open>The URL parser\<close>

lemma takeWhile_stop: "\<not> Q y \<Longrightarrow> takeWhile Q (xs @ y # ys) = takeWhile Q xs"
  by (induction xs) simp_all

lemma length_takeWhile_less:
  "x \<in> set xs \<Longrightarrow> \<not> Q x \<Longrightarrow> length (takeWhile Q xs) < length xs"
  by (induction xs) auto

text \<open>The definition of \<open>urlsplit\<close> with its intermediate values named.\<close>

lemma urlsplit_steps:
  assumes "url2 = filter (\<lambda>c. \<not> unsafe_url_byte c) (dropWhile c0_control_or_space url0)"
    and "pre = takeWhile (\<lambda>c. c \<noteq> CHR '':'') url2"
    and "hs = (CHR '':'' \<in> set url2 \<and> pre \<noteq> [] \<and> ascii_alpha (hd url2) \<and> list_all scheme_char pre)"
    and "url3 = (if hs then drop (length pre + 1) url2 else url2)"
    and "hn = (take 2 url3 = ''//'')"
    and "nl = (if hn then fst (splitnetloc url3) else [])"
    and "url4 = (if hn then snd (splitnetloc url3) else url3)"
    and "url5 = (if CHR ''#'' \<in> set url4 then fst (split_once CHR ''#'' url4) else url4)"
    and "url6 = (if CHR ''?'' \<in> set url5 then fst (split_once CHR ''?'' url5) else url5)"
  shows "urlsplit hk url0 =
     (if hn \<and> ((CHR ''['' \<in> set nl \<and> CHR '']'' \<notin> set nl) \<or> (CHR '']'' \<in> set nl \<and> CHR ''['' \<notin> set nl))
      then Inl (ValueError ''Invalid IPv6 URL'')
      else if hn \<and> CHR ''['' \<in> set nl \<and> CHR '']'' \<in> set nl
              \<and> \<not> hk (fst (split_once CHR '']'' (snd (split_once CHR ''['' nl))))
      then Inl (ValueError ''invalid bracketed host'')
      else Inr \<lparr>sr_scheme = (if hs then map lower_char pre else []), sr_netloc = nl, sr_path = url6,
                sr_query = (if CHR ''?'' \<in> set url5 then snd (split_once CHR ''?'' url5) else []),
                sr_fragment = (if CHR ''#'' \<in> set url4 then snd (split_once CHR ''#'' url4) else [])\<rparr>)"
  unfolding urlsplit_def Let_def assms by simp

text \<open>Whatever follows the first \<^verbatim>\<open>?\<close> or \<^verbatim>\<open>#\<close> of a URL changes at most the query and
  the fragment of the split.\<close>

lemma urlsplit_cut:
  assumes c: "c = CHR ''?'' \<or> c = CHR ''#''"
    and u: "CHR ''?'' \<notin> set u" "CHR ''#'' \<notin> set u"
  shows "\<exists>q f. urlsplit hk (u @ c # rest)
                = map_sum id (\<lambda>s. s\<lparr>sr_query := q, sr_fragment := f\<rparr>) (urlsplit hk u)
              \<and> (\<forall>s. urlsplit hk u = Inr s \<longrightarrow> CHR ''?'' \<notin> set (sr_path s) \<and> CHR ''#'' \<notin> set (sr_path s)
                       \<and> sr_query s = [] \<and> sr_fragment s = [])"
proof -
  have c1: "\<not> c0_control_or_space c" using c by (auto simp: c0_control_or_space_def)
  have c2: "\<not> unsafe_url_byte c" using c by (auto simp: unsafe_url_byte_def)
  have c3: "\<not> scheme_char c" using c
    by (auto simp: scheme_char_def ascii_alpha_def ascii_digit_def)
  have c4: "c \<noteq> CHR '':''" "c \<noteq> CHR ''/''" using c by auto
  have c5: "netloc_delim c" using c by (auto simp: netloc_delim_def)
  define v where "v = filter (\<lambda>c. \<not> unsafe_url_byte c) (dropWhile c0_control_or_space u)"
  define rest' where "rest' = filter (\<lambda>c. \<not> unsafe_url_byte c) rest"
  have v2: "filter (\<lambda>c. \<not> unsafe_url_byte c) (dropWhile c0_control_or_space (u @ c # rest))
            = v @ c # rest'"
    using c1 c2 by (simp add: dropWhile_append3 v_def rest'_def)
  have vfree: "CHR ''?'' \<notin> set v" "CHR ''#'' \<notin> set v"
    using u by (auto simp: v_def dest: set_dropWhileD)
  define pre where "pre = takeWhile (\<lambda>c. c \<noteq> CHR '':'') v"
  define hs where "hs = (CHR '':'' \<in> set v \<and> pre \<noteq> [] \<and> ascii_alpha (hd v) \<and> list_all scheme_char pre)"
  define pre' where "pre' = (if CHR '':'' \<in> set v then pre else v @ c # takeWhile (\<lambda>c. c \<noteq> CHR '':'') rest')"
  have pre': "pre' = takeWhile (\<lambda>c. c \<noteq> CHR '':'') (v @ c # rest')"
  proof (cases "CHR '':'' \<in> set v")
    case True
    then have "takeWhile (\<lambda>c. c \<noteq> CHR '':'') (v @ c # rest') = takeWhile (\<lambda>c. c \<noteq> CHR '':'') v"
      by (intro takeWhile_append1 [of "CHR '':''"]) simp_all
    with True show ?thesis by (simp add: pre'_def pre_def)
  next
    case False
    then have "takeWhile (\<lambda>c. c \<noteq> CHR '':'') (v @ c # rest')
                = v @ takeWhile (\<lambda>c. c \<noteq> CHR '':'') (c # rest')"
      by (intro takeWhile_append2) auto
    with False c4 show ?thesis by (simp add: pre'_def)
  qed
  have hs': "hs = (CHR '':'' \<in> set (v @ c # rest') \<and> pre' \<noteq> [] \<and> ascii_alpha (hd (v @ c # rest'))
                   \<and> list_all scheme_char pre')"
  proof (cases "CHR '':'' \<in> set v")
    case True
    then have "v \<noteq> []" by auto
    then have "hd (v @ c # rest') = hd v" by simp
    with True show ?thesis by (simp add: hs_def pre'_def)
  next
    case False
    then have "\<not> hs" by (simp add: hs_def)
    moreover have "\<not> list_all scheme_char pre'"
      using False c3 by (simp add: pre'_def)
    ultimately show ?thesis by simp
  qed
  define v3 where "v3 = (if hs then drop (length pre + 1) v else v)"
  have v3: "v3 @ c # rest' = (if hs then drop (length pre' + 1) (v @ c # rest') else v @ c # rest')"
  proof (cases hs)
    case True
    then have colon: "CHR '':'' \<in> set v" by (simp add: hs_def)
    then have "pre' = pre" by (simp add: pre'_def)
    moreover have "length pre < length v"
      unfolding pre_def using colon by (intro length_takeWhile_less [of "CHR '':''"]) simp_all
    ultimately show ?thesis using True by (simp add: v3_def)
  next
    case False
    then show ?thesis by (simp add: v3_def)
  qed
  have v3free: "CHR ''?'' \<notin> set v3" "CHR ''#'' \<notin> set v3"
    using vfree by (auto simp: v3_def dest: in_set_dropD)
  define hn where "hn = (take 2 v3 = ''//'')"
  have hn': "hn = (take 2 (v3 @ c # rest') = ''//'')"
  proof (cases v3)
    case Nil
    with c4 show ?thesis by (simp add: hn_def)
  next
    case (Cons x xs)
    show ?thesis
    proof (cases xs)
      case Nil
      with Cons c4 show ?thesis by (simp add: hn_def)
    next
      case (Cons y ys)
      with \<open>v3 = x # xs\<close> show ?thesis by (simp add: hn_def)
    qed
  qed
  define nl where "nl = (if hn then fst (splitnetloc v3) else [])"
  define v4 where "v4 = (if hn then snd (splitnetloc v3) else v3)"
  have len3: "hn \<Longrightarrow> 2 \<le> length v3"
    by (cases v3; cases "tl v3") (auto simp: hn_def)
  have nl': "nl = (if hn then fst (splitnetloc (v3 @ c # rest')) else [])"
    using len3 c5 by (simp add: nl_def splitnetloc_def takeWhile_stop)
  have v4': "v4 @ c # rest' = (if hn then snd (splitnetloc (v3 @ c # rest')) else v3 @ c # rest')"
    using len3 c5 by (simp add: v4_def splitnetloc_def dropWhile_append3)
  have v4free: "CHR ''?'' \<notin> set v4" "CHR ''#'' \<notin> set v4"
    using v3free by (auto simp: v4_def splitnetloc_def dest: set_dropWhileD in_set_dropD)
  define url5' where "url5' = (if CHR ''#'' \<in> set (v4 @ c # rest')
                                then fst (split_once CHR ''#'' (v4 @ c # rest')) else v4 @ c # rest')"
  have tw_hash: "takeWhile (\<lambda>x. x \<noteq> CHR ''#'') v4 = v4"
    using v4free by (auto simp: takeWhile_eq_all_conv)
  have tw_q: "takeWhile (\<lambda>x. x \<noteq> CHR ''?'') v4 = v4"
    using v4free by (auto simp: takeWhile_eq_all_conv)
  have path': "(if CHR ''?'' \<in> set url5' then fst (split_once CHR ''?'' url5') else url5') = v4"
  proof (cases "c = CHR ''#''")
    case True
    then have "url5' = v4"
      by (simp add: url5'_def split_once_def takeWhile_stop tw_hash)
    with v4free show ?thesis by simp
  next
    case False
    with c have cq: "c = CHR ''?''" by simp
    have "\<exists>r. url5' = v4 @ CHR ''?'' # r"
    proof (cases "CHR ''#'' \<in> set rest'")
      case True
      have "takeWhile (\<lambda>x. x \<noteq> CHR ''#'') (v4 @ CHR ''?'' # rest')
              = v4 @ takeWhile (\<lambda>x. x \<noteq> CHR ''#'') (CHR ''?'' # rest')"
        using v4free by (intro takeWhile_append2) auto
      then show ?thesis using True cq by (simp add: url5'_def split_once_def)
    next
      case False
      with v4free cq show ?thesis by (simp add: url5'_def)
    qed
    then obtain r where r: "url5' = v4 @ CHR ''?'' # r" ..
    then show ?thesis by (simp add: split_once_def takeWhile_stop tw_q)
  qed
  have path: "(if CHR ''?'' \<in> set (if CHR ''#'' \<in> set v4 then fst (split_once CHR ''#'' v4) else v4)
               then fst (split_once CHR ''?'' (if CHR ''#'' \<in> set v4 then fst (split_once CHR ''#'' v4) else v4))
               else (if CHR ''#'' \<in> set v4 then fst (split_once CHR ''#'' v4) else v4)) = v4"
    using v4free by simp
  note long = urlsplit_steps [OF v2 [symmetric] pre' hs' v3 hn' nl' v4' url5'_def refl, of hk]
  note short = urlsplit_steps [OF v_def pre_def hs_def v3_def hn_def nl_def v4_def refl refl, of hk]
  have hspre: "hs \<Longrightarrow> pre' = pre"
    by (simp add: hs_def pre'_def)
  define q where "q = (if CHR ''?'' \<in> set url5' then snd (split_once CHR ''?'' url5') else [])"
  define f where "f = (if CHR ''#'' \<in> set (v4 @ c # rest')
                        then snd (split_once CHR ''#'' (v4 @ c # rest')) else [])"
  show ?thesis
    unfolding long short path path'
    by (rule exI [of _ q], rule exI [of _ f]) (use v4free hspre in \<open>simp add: q_def f_def\<close>)
qed

lemma urlparse_path_cut:
  assumes "c = CHR ''?'' \<or> c = CHR ''#''"
    and "CHR ''?'' \<notin> set u" "CHR ''#'' \<notin> set u"
  shows "map_sum id path (urlparse hk (u @ c # rest)) = map_sum id path (urlparse hk u)"
proof -
  from urlsplit_cut [OF assms, of hk rest] obtain q f where
    cut: "urlsplit hk (u @ c # rest)
            = map_sum id (\<lambda>s. s\<lparr>sr_query := q, sr_fragment := f\<rparr>) (urlsplit hk u)"
    by blast
  show ?thesis
  proof (cases "urlsplit hk u")
    case (Inl e)
    with cut show ?thesis by (simp add: urlparse_def)
  next
    case (Inr s)
    with cut show ?thesis by (simp add: urlparse_def Let_def)
  qed
qed

lemma entry_name_cut:
  assumes "c = CHR ''?'' \<or> c = CHR ''#''"
    and "CHR ''?'' \<notin> set u" "CHR ''#'' \<notin> set u"
  shows "entry_name hk (JStr (u @ c # rest)) = entry_name hk (JStr u)"
proof -
  have "url_path hk (JStr (u @ c # rest)) = url_path hk (JStr u)"
    using urlparse_path_cut [OF assms, of hk rest]
    by (auto simp: url_path_def split: sum.splits)
  then show ?thesis by (simp add: entry_name_def)
qed

section \<open>The last segment of a path\<close>

lemma basename_no_slash: "CHR ''/'' \<notin> set (basename p)"
  by (auto simp: basename_def dest: set_takeWhileD)

lemma basename_suffix:
  "\<exists>d. p = d @ basename p \<and> (d = [] \<or> last d = CHR ''/'')"
proof -
  let ?P = "\<lambda>c. c \<noteq> CHR ''/''"
  let ?d = "rev (dropWhile ?P (rev p))"
  have "?d @ basename p = rev (takeWhile ?P (rev p) @ dropWhile ?P (rev p))"
    by (simp only: basename_def rev_append)
  also have "\<dots> = p" by simp
  finally have p: "p = ?d @ basename p" by simp
  have "?d = [] \<or> last ?d = CHR ''/''"
  proof (cases "dropWhile ?P (rev p)")
    case Nil
    then show ?thesis by simp
  next
    case (Cons x xs)
    then have "dropWhile ?P (rev p) \<noteq> []" by simp
    then have "\<not> ?P (hd (dropWhile ?P (rev p)))" by (rule hd_dropWhile)
    with Cons show ?thesis by (simp add: last_rev)
  qed
  with p show ?thesis by blast
qed

lemma basename_empty_iff: "basename p = [] \<longleftrightarrow> p = [] \<or> last p = CHR ''/''"
  by (cases p rule: rev_cases) (simp_all add: basename_def)

lemma entry_name_no_slash: "entry_name hk url = Inr n \<Longrightarrow> CHR ''/'' \<notin> set n"
  using basename_no_slash by (auto simp: entry_name_def split: sum.splits if_splits)

lemma entry_name_of_path:
  "url_path hk url = Inr p \<Longrightarrow>
   entry_name hk url = Inr (if p = [] \<or> last p = CHR ''/'' then ''index.html'' else basename p)"
  using basename_empty_iff [of p] by (simp add: entry_name_def)

text \<open>A URL that consists of the scheme \<open>http\<close> or \<open>https\<close>, a host and a path \<open>p\<close>
  (empty or starting with a slash, free of \<^verbatim>\<open>?\<close>, \<^verbatim>\<open>#\<close>, tab and line breaks).\<close>

lemma urlsplit_plain:
  assumes "sch = ''http'' \<or> sch = ''https''"
    and "\<forall>c \<in> set host. \<not> netloc_delim c \<and> \<not> unsafe_url_byte c \<and> c \<noteq> CHR ''['' \<and> c \<noteq> CHR '']''"
    and "p = [] \<or> hd p = CHR ''/''"
    and "\<forall>c \<in> set p. c \<noteq> CHR ''?'' \<and> c \<noteq> CHR ''#'' \<and> \<not> unsafe_url_byte c"
  shows "urlsplit hk (sch @ ''://'' @ host @ p)
           = Inr \<lparr>sr_scheme = sch, sr_netloc = host, sr_path = p, sr_query = [], sr_fragment = []\<rparr>"
proof -
  let ?url = "sch @ ''://'' @ host @ p"
  let ?safe = "\<lambda>c. \<not> unsafe_url_byte c"
  let ?inside = "\<lambda>c. \<not> netloc_delim c"
  have host_safe: "\<forall>c \<in> set host. ?safe c" using assms(2) by blast
  have host_inside: "\<And>c. c \<in> set host \<Longrightarrow> ?inside c" using assms(2) by blast
  have p_safe: "\<forall>c \<in> set p. ?safe c" using assms(4) by blast
  have br: "CHR ''['' \<notin> set host" "CHR '']'' \<notin> set host"
    using assms(2) by blast+
  have t: "CHR ''?'' \<notin> set p" "CHR ''#'' \<notin> set p"
    using assms(4) by blast+
  have hf: "filter ?safe host = host"
    using host_safe by (rule filter_True)
  have sf: "filter ?safe sch = sch"
    using assms(1) by (auto simp: unsafe_url_byte_def)
  have tf: "filter ?safe p = p"
    using p_safe by (rule filter_True)
  have d: "dropWhile c0_control_or_space ?url = ?url"
    using assms(1) by (auto simp: c0_control_or_space_def)
  have safe: "?safe CHR '':''" "?safe CHR ''/''"
    by (simp_all add: unsafe_url_byte_def)
  have "filter ?safe ?url = filter ?safe sch @ filter ?safe ''://'' @ filter ?safe host @ filter ?safe p"
    by (simp only: filter_append)
  also have "filter ?safe ''://'' = ''://''"
    using safe by simp
  finally have "filter ?safe ?url = ?url"
    by (simp only: hf sf tf)
  then have url2: "?url = filter ?safe (dropWhile c0_control_or_space ?url)"
    by (simp only: d)
  have pre: "sch = takeWhile (\<lambda>c. c \<noteq> CHR '':'') ?url"
    using assms(1) by auto
  have hs: "True = (CHR '':'' \<in> set ?url \<and> sch \<noteq> [] \<and> ascii_alpha (hd ?url) \<and> list_all scheme_char sch)"
    using assms(1) by (auto simp: ascii_alpha_def scheme_char_def)
  have url3: "''//'' @ host @ p = (if True then drop (length sch + 1) ?url else ?url)"
    by simp
  have hn: "True = (take 2 (''//'' @ host @ p) = ''//'')" by simp
  have p_tw: "takeWhile ?inside p = []" and p_dw: "dropWhile ?inside p = p"
    using assms(3) by (cases p; simp add: netloc_delim_def)+
  have "takeWhile ?inside (host @ p) = host @ takeWhile ?inside p"
    by (rule takeWhile_append2) (rule host_inside)
  then have tw: "takeWhile ?inside (host @ p) = host"
    by (simp only: p_tw append_Nil2)
  have "dropWhile ?inside (host @ p) = dropWhile ?inside p"
    by (rule dropWhile_append2) (rule host_inside)
  then have dw: "dropWhile ?inside (host @ p) = p"
    by (simp only: p_dw)
  have d2: "drop 2 (''//'' @ host @ p) = host @ p" by simp
  have nl: "host = (if True then fst (splitnetloc (''//'' @ host @ p)) else [])"
    unfolding splitnetloc_def d2 tw by simp
  have url4: "p = (if True then snd (splitnetloc (''//'' @ host @ p)) else ''//'' @ host @ p)"
    unfolding splitnetloc_def d2 dw by simp
  have url5: "p = (if CHR ''#'' \<in> set p then fst (split_once CHR ''#'' p) else p)"
    using t by simp
  have url6: "p = (if CHR ''?'' \<in> set p then fst (split_once CHR ''?'' p) else p)"
    using t by simp
  have low: "map lower_char sch = sch"
    using assms(1) by (auto simp: lower_char_def)
  show ?thesis
    unfolding urlsplit_steps [OF url2 pre hs url3 hn nl url4 url5 url6, of hk]
    using br t by (simp add: low)
qed

lemma url_path_plain:
  assumes "sch = ''http'' \<or> sch = ''https''"
    and "\<forall>c \<in> set host. \<not> netloc_delim c \<and> \<not> unsafe_url_byte c \<and> c \<noteq> CHR ''['' \<and> c \<noteq> CHR '']''"
    and "p = [] \<or> hd p = CHR ''/''"
    and "\<forall>c \<in> set p. c \<noteq> CHR ''?'' \<and> c \<noteq> CHR ''#'' \<and> \<not> unsafe_url_byte c"
  shows "url_path hk (JStr (sch @ ''://'' @ host @ p))
           = Inr (if CHR '';'' \<in> set p then fst (splitparams p) else p)"
proof -
  have up: "sch \<in> set uses_params"
    using assms(1) by (auto simp: uses_params_def)
  have "urlparse hk (sch @ ''://'' @ host @ p)
          = Inr \<lparr>scheme = sch, netloc = host,
                  path = (if CHR '';'' \<in> set p then fst (splitparams p) else p),
                  params = (if CHR '';'' \<in> set p then snd (splitparams p) else []),
                  query = [], fragment = []\<rparr>"
    unfolding urlparse_def urlsplit_plain [OF assms] using up by (simp add: Let_def)
  then show ?thesis
    unfolding url_path_def by simp
qed

text \<open>The last segment of a path after the parameters have been split off.\<close>

lemma basename_append_segment:
  assumes "d = [] \<or> last d = CHR ''/''" and "CHR ''/'' \<notin> set t"
  shows "basename (d @ t) = t"
proof -
  let ?P = "\<lambda>c. c \<noteq> CHR ''/''"
  have all: "\<And>x. x \<in> set (rev t) \<Longrightarrow> ?P x" using assms(2) by auto
  have "takeWhile ?P (rev t @ rev d) = rev t @ takeWhile ?P (rev d)"
    by (rule takeWhile_append2) (rule all)
  moreover have "takeWhile ?P (rev d) = []"
    using assms(1) by (cases d rule: rev_cases) simp_all
  ultimately show ?thesis by (simp add: basename_def)
qed

lemma basename_without_params:
  "basename (if CHR '';'' \<in> set p then fst (splitparams p) else p)
     = takeWhile (\<lambda>c. c \<noteq> CHR '';'') (basename p)"
proof (cases "CHR '';'' \<in> set (basename p)")
  case False
  then have tw: "takeWhile (\<lambda>c. c \<noteq> CHR '';'') (basename p) = basename p"
    by (auto simp: takeWhile_eq_all_conv)
  have sp: "fst (splitparams p) = p"
    using False by (simp add: splitparams_def Let_def)
  show ?thesis by (simp only: tw sp if_cancel)
next
  case True
  from basename_suffix [of p] obtain d where
    d: "p = d @ basename p" "d = [] \<or> last d = CHR ''/''" by blast
  have in_p: "CHR '';'' \<in> set p"
    using True d(1) by (metis Un_iff set_append)
  have "length p - length (basename p) = length d"
    using d(1) by (metis add_diff_cancel_right' length_append)
  moreover have "take (length d) p = d"
    using d(1) by (metis append_eq_conv_conj)
  ultimately have dir: "take (length p - length (basename p)) p = d" by simp
  have sp: "fst (splitparams p) = d @ takeWhile (\<lambda>c. c \<noteq> CHR '';'') (basename p)"
    using True by (simp add: splitparams_def Let_def dir split_once_def)
  have "CHR ''/'' \<notin> set (takeWhile (\<lambda>c. c \<noteq> CHR '';'') (basename p))"
    using basename_no_slash [of p] by (auto dest: set_takeWhileD)
  from basename_append_segment [OF d(2) this] in_p sp show ?thesis by simp
qed

section \<open>The configuration validator\<close>

lemma assert_key_bad:
  "map_of kv k = None \<or> (\<exists>v. map_of kv k = Some v \<and> \<not> truthy v) \<Longrightarrow>
   assert_key (JObj kv) k = Inl (KeyError k)
   \<or> assert_key (JObj kv) k = Inl (AssertionError ''invalid configuration!'')"
  by (auto simp: assert_key_def)

lemma assert_key_cases:
  "assert_key (JObj kv) k = Inr () \<or> assert_key (JObj kv) k = Inl (KeyError k)
   \<or> assert_key (JObj kv) k = Inl (AssertionError ''invalid configuration!'')"
  by (auto simp: assert_key_def split: option.splits)

lemma check_config_bad:
  assumes "k \<in> {''datadir'', ''headers'', ''urls''}"
    and "map_of kv k = None \<or> (\<exists>v. map_of kv k = Some v \<and> \<not> truthy v)"
  shows "\<exists>e. check_config (JObj kv) = Inl e \<and>
          (e = AssertionError ''invalid configuration!''
           \<or> e \<in> KeyError ` {''datadir'', ''headers'', ''urls''})"
proof -
  from assms(2) have bad:
    "assert_key (JObj kv) k = Inl (KeyError k)
     \<or> assert_key (JObj kv) k = Inl (AssertionError ''invalid configuration!'')"
    by (rule assert_key_bad)
  note c1 = assert_key_cases [of kv "''datadir''"]
  note c2 = assert_key_cases [of kv "''headers''"]
  from assms(1) bad c1 c2 show ?thesis
    unfolding check_config_def by (elim insertE disjE; simp; fastforce)
qed

text \<open>
  C4. A configuration object in which one of \<open>datadir\<close>, \<open>headers\<close>, \<open>urls\<close> is missing
  or empty (an empty \<open>urls\<close> list included) makes \<open>run\<close> fail in the validator, and the
  state of the world is returned as it was given: no directory was resolved, no archive
  path computed, no request sent, nothing logged. The failure is the assertion
  "invalid configuration!" for a field that is present and empty, and the KeyError of
  the dict for a key that is missing.
\<close>

theorem invalid_config_fails_before_any_effect:
  assumes "k \<in> {''datadir'', ''headers'', ''urls''}"
    and "map_of kv k = None \<or> (\<exists>v. map_of kv k = Some v \<and> \<not> truthy v)"
  shows "\<exists>e. check_config (JObj kv) = Inl e
             \<and> run w (JObj kv) no_sleep st = (Inl e, st)
             \<and> (e = AssertionError ''invalid configuration!''
                \<or> e \<in> KeyError ` {''datadir'', ''headers'', ''urls''})"
proof -
  from check_config_bad [OF assms] obtain e where
    e: "check_config (JObj kv) = Inl e"
       "e = AssertionError ''invalid configuration!'' \<or> e \<in> KeyError ` {''datadir'', ''headers'', ''urls''}"
    by blast
  from e(1) have "run w (JObj kv) no_sleep st = (Inl e, st)"
    by (simp add: run_def)
  with e show ?thesis by blast
qed

theorem invalid_config_fails_before_any_effect_witness:
  "''urls'' \<in> {''datadir'', ''headers'', ''urls''}
   \<and> (\<exists>v. map_of [(''datadir'', JStr ''data''), (''headers'', JObj [(''User-Agent'', JStr ''x'')]),
                    (''urls'', JArr [])] ''urls'' = Some v \<and> \<not> truthy v)
   \<and> (\<exists>e. run world_404 (JObj [(''datadir'', JStr ''data''), (''headers'', JObj [(''User-Agent'', JStr ''x'')]),
                                (''urls'', JArr [])]) False initial = (Inl e, initial)
          \<and> (e = AssertionError ''invalid configuration!''
              \<or> e \<in> KeyError ` {''datadir'', ''headers'', ''urls''}))"
proof -
  have h1: "''urls'' \<in> {''datadir'', ''headers'', ''urls''}" by simp
  have h2: "\<exists>v. map_of [(''datadir'', JStr ''data''), (''headers'', JObj [(''User-Agent'', JStr ''x'')]),
                    (''urls'', JArr [])] ''urls'' = Some v \<and> \<not> truthy v" by simp
  from invalid_config_fails_before_any_effect [OF h1 disjI2 [OF h2], of world_404 False initial] h1 h2
  show ?thesis by blast
qed

section \<open>The archive target\<close>

text \<open>
  C5. When the configuration passes the validator, \<open>datadir\<close> names an existing
  directory and the target path (the data directory joined with the current-time file
  name) already exists, \<open>run\<close> fails with the assertion "target ZIP must not exist
  already!". All it has done by then is to resolve and test the two paths and to log
  them: no request has been sent and the state of the archive is untouched (it has not
  been created or opened).
\<close>

theorem existing_target_fails_before_any_request:
  assumes "check_config (JObj kv) = Inr ()"
    and "map_of kv ''datadir'' = Some (JStr d)"
    and "is_dir w (datadir_path w d)"
    and "exists w (target_path w d)"
  shows "run w (JObj kv) no_sleep st =
           (Inl (AssertionError ''target ZIP must not exist already!''),
            st\<lparr>trace := trace st @
                 [Resolve (datadir_path w d),
                  Log DEBUG ''datadir: %s'' [JStr (resolve w (datadir_path w d))],
                  IsDir (datadir_path w d),
                  Resolve (target_path w d),
                  Log INFO ''filepath: %s'' [JStr (resolve w (target_path w d))],
                  Exists (target_path w d)]\<rparr>)
         \<and> requests (trace (snd (run w (JObj kv) no_sleep st))) = requests (trace st)
         \<and> archive (snd (run w (JObj kv) no_sleep st)) = archive st"
proof -
  have dd: "get_check_datadir w (JObj kv) st =
     (Inr (datadir_path w d),
      st\<lparr>trace := trace st @ [Resolve (datadir_path w d),
                               Log DEBUG ''datadir: %s'' [JStr (resolve w (datadir_path w d))],
                               IsDir (datadir_path w d)]\<rparr>)"
    using assms(2,3)
    by (simp add: get_check_datadir_def datadir_path_def Let_def emit_def logging_def)
  have taken: "exists w (joinpath (datadir_path w d) (now w @ ''.zip''))"
    using assms(4) by (simp add: target_path_def)
  have r: "run w (JObj kv) no_sleep st =
           (Inl (AssertionError ''target ZIP must not exist already!''),
            st\<lparr>trace := trace st @
                 [Resolve (datadir_path w d),
                  Log DEBUG ''datadir: %s'' [JStr (resolve w (datadir_path w d))],
                  IsDir (datadir_path w d),
                  Resolve (target_path w d),
                  Log INFO ''filepath: %s'' [JStr (resolve w (target_path w d))],
                  Exists (target_path w d)]\<rparr>)"
    unfolding run_def
    by (simp add: assms(1) dd get_check_zipfilename_taken [OF taken] target_path_def)
  show ?thesis
    unfolding r by (simp add: requests_append)
qed

theorem existing_target_fails_before_any_request_witness:
  "check_config (JObj example_items) = Inr ()
   \<and> map_of example_items ''datadir'' = Some (JStr ''data'')
   \<and> is_dir world_taken (datadir_path world_taken ''data'')
   \<and> exists world_taken (target_path world_taken ''data'')
   \<and> fst (run world_taken (JObj example_items) False initial)
       = Inl (AssertionError ''target ZIP must not exist already!'')
   \<and> requests (trace (snd (run world_taken (JObj example_items) False initial))) = []
   \<and> archive (snd (run world_taken (JObj example_items) False initial)) = None"
proof -
  have h1: "check_config (JObj example_items) = Inr ()" by code_simp
  have h2: "map_of example_items ''datadir'' = Some (JStr ''data'')" by code_simp
  have h3: "is_dir world_taken (datadir_path world_taken ''data'')" by code_simp
  have h4: "exists world_taken (target_path world_taken ''data'')" by code_simp
  from existing_target_fails_before_any_request [OF h1 h2 h3 h4, of False initial] h1 h2 h3 h4
  show ?thesis by (simp add: initial_def)
qed

section \<open>A request that fails at the transport level\<close>

text \<open>
  C1, as the specification states it, fails: nothing in \<open>run\<close> catches an exception
  of the HTTP client. With the connection of the first of two requests failing, the loop
  raises the client's exception, the second URL is never requested, and the run ends
  with the exception.
\<close>

theorem transport_error_is_raised_counterexample:
  "fst (run world_down_first example_config True initial) = Inl (Raised ''ConnectionError'')
   \<and> requests (trace (snd (run world_down_first example_config True initial)))
       = [JStr ''https://a.test/page1.html'']"
  by code_simp

text \<open>
  C1, amended. If the URLs before position \<open>i + length pre\<close> are processed without an
  exception and the GET for the URL at that position raises \<open>e\<close>, then the loop raises
  \<open>e\<close> there: after the events that lead to the request (the sleep unless disabled, the
  log line, the GET) nothing is logged, the archive is as it was before this URL (no
  entry for it), and no later URL is processed.
\<close>

theorem transport_error_ends_loop:
  assumes "subscript config ''headers'' = Inr h"
    and "fetch_loop w no_sleep config i pre st = (Inr (), st1)"
    and "http_get w (i + length pre) url h = Inl e"
  shows "fetch_loop w no_sleep config i (pre @ url # rest) st =
           (Inl e, st1\<lparr>trace := trace st1 @ pre_get_events w no_sleep (i + length pre) url h\<rparr>)"
  using assms(2) loop_body_raise [OF assms(1) assms(3), of no_sleep st1]
  by (simp add: fetch_loop_append)

theorem transport_error_ends_loop_witness:
  "subscript example_config ''headers'' = Inr (JObj [(''User-Agent'', JStr ''x'')])
   \<and> fst (fetch_loop world_down_second True example_config 0 [JStr ''https://a.test/page1.html''] opened)
       = Inr ()
   \<and> http_get world_down_second (0 + length [JStr ''https://a.test/page1.html'']) (JStr ''https://a.test/'')
        (JObj [(''User-Agent'', JStr ''x'')]) = Inl (Raised ''ConnectionError'')
   \<and> fst (fetch_loop world_down_second True example_config 0
            ([JStr ''https://a.test/page1.html''] @ JStr ''https://a.test/'' # [JStr ''https://a.test/never'']) opened)
       = Inl (Raised ''ConnectionError'')
   \<and> archive (snd (fetch_loop world_down_second True example_config 0
            ([JStr ''https://a.test/page1.html''] @ JStr ''https://a.test/'' # [JStr ''https://a.test/never'']) opened))
       = archive (snd (fetch_loop world_down_second True example_config 0 [JStr ''https://a.test/page1.html''] opened))"
proof -
  have h1: "subscript example_config ''headers'' = Inr (JObj [(''User-Agent'', JStr ''x'')])"
    by code_simp
  have f: "fst (fetch_loop world_down_second True example_config 0 [JStr ''https://a.test/page1.html''] opened)
       = Inr ()"
    by code_simp
  then have h2: "fetch_loop world_down_second True example_config 0 [JStr ''https://a.test/page1.html''] opened
       = (Inr (), snd (fetch_loop world_down_second True example_config 0 [JStr ''https://a.test/page1.html''] opened))"
    by (simp add: prod_eq_iff)
  have h3: "http_get world_down_second (0 + length [JStr ''https://a.test/page1.html'']) (JStr ''https://a.test/'')
        (JObj [(''User-Agent'', JStr ''x'')]) = Inl (Raised ''ConnectionError'')"
    by code_simp
  from transport_error_ends_loop [OF h1 h2 h3, of "[JStr ''https://a.test/never'']"] h1 f h3
  show ?thesis by simp
qed

section \<open>Which responses are archived\<close>

text \<open>
  C2, as the specification states it, fails: the loop tests \<^verbatim>\<open>r.ok\<close>, which the HTTP
  client defines as "the status is not a client or server error", not as "the status is
  2xx". A response with status 304 is outside the 2xx class, and its (empty) body is
  written to the archive.
\<close>

theorem not_2xx_response_is_archived_counterexample:
  "http_get world_304 0 (JStr ''https://a.test/page1.html'') (JObj [(''User-Agent'', JStr ''x'')])
     = Inr \<lparr>status_code = 304, reason = ''Not Modified'', text_body = []\<rparr>
   \<and> \<not> (200 \<le> (304::int) \<and> (304::int) < 300)
   \<and> map_option filelist
        (archive (snd (loop_body world_304 True example_config 0 (JStr ''https://a.test/page1.html'') opened)))
       = Some [(''page1.html'', [])]"
  by code_simp

text \<open>
  C2, amended. For a URL whose GET returns a response \<open>r\<close>, with the archive open: the
  iteration ends without an exception and the archive gains the entry of this URL
  (its entry name, the text of \<open>r\<close>) if and only if \<open>r\<close> is \<open>ok\<close>, that is, if and only
  if its status is not in the range 400 to 599; when \<open>r\<close> is not \<open>ok\<close>, the archive is
  unchanged and the last thing the iteration does is to log the reason at error level.
  (For an \<open>ok\<close> response the URL is taken to parse, to the name \<open>n\<close>, and the disk to
  accept the write.)
\<close>

theorem entry_written_iff_response_ok:
  assumes "subscript config ''headers'' = Inr h"
    and "http_get w i url h = Inr r"
    and "archive st = Some zf" and "\<not> closed zf"
    and "ok r \<Longrightarrow> write_error w i = None \<and> entry_name (host_ok w) url = Inr n"
  shows "fst (loop_body w no_sleep config i url st) = Inr ()
         \<and> archive (snd (loop_body w no_sleep config i url st))
             = Some (zf\<lparr>filelist := filelist zf @ (if ok r then [(n, text_body r)] else [])\<rparr>)
         \<and> (ok r \<longleftrightarrow> \<not> (400 \<le> status_code r \<and> status_code r < 600))
         \<and> (\<not> ok r \<longrightarrow> last (trace (snd (loop_body w no_sleep config i url st)))
                           = Log ERROR (reason r) [])"
proof (cases "ok r")
  case False
  from loop_body_not_ok [OF assms(1) assms(2) False, of no_sleep st] assms(3) False
  show ?thesis by (simp add: ok_def)
next
  case True
  from assms(5) [OF True] have we: "write_error w i = None"
    and n: "entry_name (host_ok w) url = Inr n" by simp_all
  from n obtain p where p: "url_path (host_ok w) url = Inr p"
    and np: "n = (if basename p = [] then ''index.html'' else basename p)"
    by (auto simp: entry_name_url_path)
  from loop_body_ok [OF assms(1) assms(2) True p assms(3) assms(4) we, of no_sleep] np True
  show ?thesis by (simp add: ok_def)
qed

theorem entry_written_iff_response_ok_witness:
  "subscript example_config ''headers'' = Inr (JObj [(''User-Agent'', JStr ''x'')])
   \<and> http_get world_404 0 (JStr ''https://a.test/page1.html'') (JObj [(''User-Agent'', JStr ''x'')])
       = Inr \<lparr>status_code = 200, reason = ''OK'', text_body = ''<html>1</html>''\<rparr>
   \<and> http_get world_404 1 (JStr ''https://a.test/'') (JObj [(''User-Agent'', JStr ''x'')])
       = Inr \<lparr>status_code = 404, reason = ''Not Found'', text_body = ''gone''\<rparr>
   \<and> archive opened = Some \<lparr>zip_path = ''/opt/tool/data/2022-10-06_120000.zip'', filelist = [], closed = False\<rparr>
   \<and> write_error world_404 0 = None
   \<and> entry_name (host_ok world_404) (JStr ''https://a.test/page1.html'') = Inr ''page1.html''
   \<and> fst (loop_body world_404 False example_config 0 (JStr ''https://a.test/page1.html'') opened) = Inr ()
   \<and> archive (snd (loop_body world_404 False example_config 0 (JStr ''https://a.test/page1.html'') opened))
       = Some \<lparr>zip_path = ''/opt/tool/data/2022-10-06_120000.zip'',
                filelist = [(''page1.html'', ''<html>1</html>'')], closed = False\<rparr>
   \<and> fst (loop_body world_404 False example_config 1 (JStr ''https://a.test/'') opened) = Inr ()
   \<and> archive (snd (loop_body world_404 False example_config 1 (JStr ''https://a.test/'') opened))
       = Some \<lparr>zip_path = ''/opt/tool/data/2022-10-06_120000.zip'', filelist = [], closed = False\<rparr>
   \<and> last (trace (snd (loop_body world_404 False example_config 1 (JStr ''https://a.test/'') opened)))
       = Log ERROR ''Not Found'' []"
proof -
  let ?r0 = "\<lparr>status_code = 200, reason = ''OK'', text_body = ''<html>1</html>''\<rparr>"
  let ?r1 = "\<lparr>status_code = 404, reason = ''Not Found'', text_body = ''gone''\<rparr>"
  let ?zf = "\<lparr>zip_path = ''/opt/tool/data/2022-10-06_120000.zip'', filelist = [], closed = False\<rparr>"
  have h1: "subscript example_config ''headers'' = Inr (JObj [(''User-Agent'', JStr ''x'')])"
    by code_simp
  have g0: "http_get world_404 0 (JStr ''https://a.test/page1.html'') (JObj [(''User-Agent'', JStr ''x'')]) = Inr ?r0"
    by code_simp
  have g1: "http_get world_404 1 (JStr ''https://a.test/'') (JObj [(''User-Agent'', JStr ''x'')]) = Inr ?r1"
    by code_simp
  have h3: "archive opened = Some ?zf"
    by (simp add: opened_def zip_open_def initial_def)
  have h4: "\<not> closed ?zf" by simp
  have we: "write_error world_404 0 = None" by code_simp
  have en: "entry_name (host_ok world_404) (JStr ''https://a.test/page1.html'') = Inr ''page1.html''"
    by code_simp
  have ok0: "ok ?r0" by (simp add: ok_def)
  have nok1: "\<not> ok ?r1" by (simp add: ok_def)
  have h5: "ok ?r0 \<Longrightarrow> write_error world_404 0 = None
              \<and> entry_name (host_ok world_404) (JStr ''https://a.test/page1.html'') = Inr ''page1.html''"
    using we en by simp
  have h5': "ok ?r1 \<Longrightarrow> write_error world_404 1 = None
              \<and> entry_name (host_ok world_404) (JStr ''https://a.test/'') = Inr ''index.html''"
    using nok1 by simp
  from entry_written_iff_response_ok [OF h1 g0 h3 h4 h5, of False]
       entry_written_iff_response_ok [OF h1 g1 h3 h4 h5', of False]
       h1 g0 g1 h3 we en ok0 nok1
  show ?thesis by simp
qed

section \<open>Closing the archive\<close>

lemma check_config_urls:
  "check_config config = Inr () \<Longrightarrow>
   \<exists>urls n. subscript config ''urls'' = Inr urls \<and> py_len urls = Inr n"
  by (auto simp: check_config_def split: sum.splits if_splits)

lemma with_ZipFile_closes:
  assumes "\<And>s zf. archive s = Some zf \<Longrightarrow>
             \<exists>zf'. archive (snd (body s)) = Some zf' \<and> zip_path zf' = zip_path zf"
  shows "\<exists>zf. archive (snd (with_ZipFile p body st)) = Some zf \<and> zip_path zf = p \<and> closed zf
             \<and> last (trace (snd (with_ZipFile p body st))) = ZipClose
             \<and> fst (with_ZipFile p body st) = fst (body (zip_open p st))"
proof -
  have o: "archive (zip_open p st) = Some \<lparr>zip_path = p, filelist = [], closed = False\<rparr>"
    by (simp add: zip_open_def)
  from assms [OF o] obtain zf' where
    z: "archive (snd (body (zip_open p st))) = Some zf'" "zip_path zf' = p"
    by auto
  obtain r s' where b: "body (zip_open p st) = (r, s')"
    by (cases "body (zip_open p st)")
  with z have "archive s' = Some zf'" by simp
  with z(2) b show ?thesis
    by (simp add: with_ZipFile_def zip_close_def)
qed

text \<open>
  C7. Once the setup has succeeded (the configuration passed the validator, the data
  directory and the target path \<open>f\<close> were accepted), \<open>run\<close> opens the archive, and
  whatever the loop does - whether it ends normally or an exception leaves its body, be
  it raised by the HTTP client, by the URL parser or by the write to the archive - the
  state after \<open>run\<close> holds the archive of path \<open>f\<close> closed, and closing it was the last
  thing that happened.
\<close>

theorem archive_closed_on_every_exit:
  assumes "check_config config = Inr ()"
    and "get_check_datadir w config st = (Inr dd, st1)"
    and "get_check_zipfilename w dd st1 = (Inr f, st2)"
  shows "\<exists>zf. archive (snd (run w config no_sleep st)) = Some zf
             \<and> zip_path zf = f \<and> closed zf
             \<and> last (trace (snd (run w config no_sleep st))) = ZipClose"
proof -
  from check_config_urls [OF assms(1)] obtain urls n where
    u: "subscript config ''urls'' = Inr urls" "py_len urls = Inr n" by blast
  let ?body = "\<lambda>s. case py_iter urls of
                      Inl e \<Rightarrow> (Inl e, s)
                    | Inr us \<Rightarrow> fetch_loop w no_sleep config 0 us s"
  have r: "run w config no_sleep st =
             with_ZipFile f ?body (logging INFO ''#URLs: %d'' [JNum (int n)] st2)"
    by (simp add: run_def assms u)
  have keep: "\<And>(s::state) zf. archive s = Some zf \<Longrightarrow>
             \<exists>zf'. archive (snd (?body s)) = Some zf' \<and> zip_path zf' = zip_path zf"
  proof -
    fix s :: state and zf assume a: "archive s = Some zf"
    show "\<exists>zf'. archive (snd (?body s)) = Some zf' \<and> zip_path zf' = zip_path zf"
    proof (cases "py_iter urls")
      case (Inl e)
      with a show ?thesis by simp
    next
      case (Inr us)
      from fetch_loop_archive [OF a, of w no_sleep config 0 us] Inr show ?thesis by auto
    qed
  qed
  from with_ZipFile_closes [of ?body f, OF keep] show ?thesis
    unfolding r by blast
qed

theorem archive_closed_on_every_exit_witness:
  "check_config example_config = Inr ()
   \<and> fst (get_check_datadir world_disk_full example_config initial) = Inr ''/opt/tool/data''
   \<and> fst (get_check_zipfilename world_disk_full ''/opt/tool/data''
            (snd (get_check_datadir world_disk_full example_config initial)))
       = Inr ''/opt/tool/data/2022-10-06_120000.zip''
   \<and> fst (run world_disk_full example_config True initial) = Inl (Raised ''OSError'')
   \<and> (\<exists>zf. archive (snd (run world_disk_full example_config True initial)) = Some zf
          \<and> zip_path zf = ''/opt/tool/data/2022-10-06_120000.zip'' \<and> closed zf
          \<and> last (trace (snd (run world_disk_full example_config True initial))) = ZipClose)"
proof -
  have h1: "check_config example_config = Inr ()" by code_simp
  have f2: "fst (get_check_datadir world_disk_full example_config initial) = Inr ''/opt/tool/data''"
    by code_simp
  then have h2: "get_check_datadir world_disk_full example_config initial
        = (Inr ''/opt/tool/data'', snd (get_check_datadir world_disk_full example_config initial))"
    by (simp add: prod_eq_iff)
  have f3: "fst (get_check_zipfilename world_disk_full ''/opt/tool/data''
            (snd (get_check_datadir world_disk_full example_config initial)))
       = Inr ''/opt/tool/data/2022-10-06_120000.zip''"
    by code_simp
  then have h3: "get_check_zipfilename world_disk_full ''/opt/tool/data''
            (snd (get_check_datadir world_disk_full example_config initial))
       = (Inr ''/opt/tool/data/2022-10-06_120000.zip'',
          snd (get_check_zipfilename world_disk_full ''/opt/tool/data''
            (snd (get_check_datadir world_disk_full example_config initial))))"
    by (simp add: prod_eq_iff)
  have e: "fst (run world_disk_full example_config True initial) = Inl (Raised ''OSError'')"
    by code_simp
  from archive_closed_on_every_exit [OF h1 h2 h3, of True] h1 f2 f3 e
  show ?thesis by simp
qed

section \<open>What the finished archive holds\<close>

text \<open>
  C3, as the specification states it, fails where the failing subset fails at the
  transport level: with the first URL answered with 200 and the connection of the second
  request failing, the archive holds the entry of the first URL, but the exit code is 1,
  not zero.
\<close>

theorem exit_code_after_transport_error_counterexample:
  "exit_code (main world_down_second example_args initial) = 1
   \<and> map_option filelist (archive (snd (main world_down_second example_args initial)))
       = Some [(''page1.html'', ''<html>1</html>'')]"
  by code_simp

text \<open>
  C3, amended. The configuration file is found and holds a configuration whose setup
  succeeds, with the URLs \<open>us\<close>. If every GET returns a response (and every \<open>ok\<close> one can
  be named and written), then the exit code is zero and the finished archive is closed
  and holds exactly the entries of the \<open>ok\<close> responses, in the order of the list; if all
  responses are 2xx these are as many entries as there are URLs, named by the entry
  namer URL by URL.
\<close>

theorem archive_holds_entries_of_ok_responses:
  assumes "exists w (arg_config a)"
    and "json_load w (arg_config a) = Inr (JObj kv)"
    and "ready w kv d h us"
    and "undisturbed w h 0 us"
  shows "exit_code (main w a st) = 0
         \<and> archive (snd (main w a st))
             = Some \<lparr>zip_path = target_path w d, filelist = expected_entries w h 0 us, closed = True\<rparr>
         \<and> (all_2xx w h 0 us \<longrightarrow>
              length (expected_entries w h 0 us) = length us
              \<and> map (\<lambda>n. Inr n) (map fst (expected_entries w h 0 us))
                  = map (entry_name (host_ok w)) us)"
proof -
  from main_loaded [OF assms(1) assms(2), of st]
       run_undisturbed [OF assms(3) assms(4)]
  have "fst (main w a st) = Inr ()"
    and "archive (snd (main w a st))
          = Some \<lparr>zip_path = target_path w d, filelist = expected_entries w h 0 us, closed = True\<rparr>"
    by simp_all
  moreover have "all_2xx w h 0 us \<longrightarrow>
              length (expected_entries w h 0 us) = length us
              \<and> map (\<lambda>n. Inr n) (map fst (expected_entries w h 0 us))
                  = map (entry_name (host_ok w)) us"
    using expected_entries_all_2xx [OF _ assms(4)] by blast
  ultimately show ?thesis by (simp add: exit_code_def)
qed

theorem archive_holds_entries_of_ok_responses_witness:
  "exists world_404 (arg_config example_args)
   \<and> json_load world_404 (arg_config example_args) = Inr (JObj example_items)
   \<and> ready world_404 example_items ''data'' (JObj [(''User-Agent'', JStr ''x'')])
        [JStr ''https://a.test/page1.html'', JStr ''https://a.test/'']
   \<and> undisturbed world_404 (JObj [(''User-Agent'', JStr ''x'')]) 0
        [JStr ''https://a.test/page1.html'', JStr ''https://a.test/'']
   \<and> exit_code (main world_404 example_args initial) = 0
   \<and> archive (snd (main world_404 example_args initial))
       = Some \<lparr>zip_path = ''/opt/tool/data/2022-10-06_120000.zip'',
                filelist = [(''page1.html'', ''<html>1</html>'')], closed = True\<rparr>"
proof -
  let ?h = "JObj [(''User-Agent'', JStr ''x'')]"
  let ?us = "[JStr ''https://a.test/page1.html'', JStr ''https://a.test/'']"
  have h1: "exists world_404 (arg_config example_args)" by code_simp
  have h2: "json_load world_404 (arg_config example_args) = Inr (JObj example_items)" by code_simp
  have h3: "ready world_404 example_items ''data'' ?h ?us" by code_simp
  have h4: "undisturbed world_404 ?h 0 ?us" by code_simp
  have t: "target_path world_404 ''data'' = ''/opt/tool/data/2022-10-06_120000.zip''" by code_simp
  have e: "expected_entries world_404 ?h 0 ?us = [(''page1.html'', ''<html>1</html>'')]" by code_simp
  note th = archive_holds_entries_of_ok_responses [OF h1 h2 h3 h4, of initial, unfolded t e]
  show ?thesis
    by (intro conjI h1 h2 h3 h4 th [THEN conjunct1] th [THEN conjunct2, THEN conjunct1])
qed

section \<open>Two URLs with the same entry name\<close>

lemma map_of_rev_last:
  "n \<notin> fst ` set zs \<Longrightarrow> map_of (rev (xs @ (n, b) # zs)) n = Some b"
  by (simp add: map_of_append map_add_def map_of_eq_None_iff [THEN iffD2] split: option.splits)

text \<open>
  C9. In a run without an exception over the URLs \<open>pre @ u # post\<close>, let \<open>u\<close> be
  answered with an \<open>ok\<close> response \<open>r\<close> and have the entry name \<open>n\<close>, and let no URL after
  \<open>u\<close> that is answered \<open>ok\<close> have the name \<open>n\<close>. Then, whatever URLs before \<open>u\<close> were
  written under the name \<open>n\<close>, the run ends without an error, the archive holds the
  entries under the names the entry namer gave (none is renamed), and reading the
  finished archive at \<open>n\<close> yields the text of \<open>r\<close>.
\<close>

theorem last_write_wins:
  assumes "ready w kv d h (pre @ u # post)"
    and "undisturbed w h 0 (pre @ u # post)"
    and "http_get w (length pre) u h = Inr r" and "ok r"
    and "entry_name (host_ok w) u = Inr n"
    and "n \<notin> fst ` set (expected_entries w h (Suc (length pre)) post)"
  shows "fst (run w (JObj kv) no_sleep st) = Inr ()
         \<and> (\<exists>zf. archive (snd (run w (JObj kv) no_sleep st)) = Some zf \<and> closed zf
                \<and> filelist zf = expected_entries w h 0 (pre @ u # post)
                \<and> zip_read zf n = Some (text_body r))"
proof -
  let ?zf = "\<lparr>zip_path = target_path w d,
              filelist = expected_entries w h 0 (pre @ u # post), closed = True\<rparr>"
  have split: "expected_entries w h 0 (pre @ u # post)
        = expected_entries w h 0 pre @ (n, text_body r) # expected_entries w h (Suc (length pre)) post"
    using assms(3,4,5) by (simp add: expected_entries_append)
  have "zip_read ?zf n = Some (text_body r)"
    unfolding zip_read_def using map_of_rev_last [OF assms(6)] by (simp add: split)
  with run_undisturbed [OF assms(1) assms(2), of no_sleep st] show ?thesis
    by simp
qed

theorem last_write_wins_witness:
  "ready world_200 same_name_urls ''data'' (JObj [(''User-Agent'', JStr ''x'')])
        ([JStr ''https://a.test/x/page.html''] @ JStr ''https://b.test/y/page.html'' # [])
   \<and> undisturbed world_200 (JObj [(''User-Agent'', JStr ''x'')]) 0
        ([JStr ''https://a.test/x/page.html''] @ JStr ''https://b.test/y/page.html'' # [])
   \<and> http_get world_200 (length [JStr ''https://a.test/x/page.html'']) (JStr ''https://b.test/y/page.html'')
        (JObj [(''User-Agent'', JStr ''x'')])
       = Inr \<lparr>status_code = 200, reason = ''OK'', text_body = ''<html>2</html>''\<rparr>
   \<and> entry_name (host_ok world_200) (JStr ''https://a.test/x/page.html'') = Inr ''page.html''
   \<and> entry_name (host_ok world_200) (JStr ''https://b.test/y/page.html'') = Inr ''page.html''
   \<and> fst (run world_200 (JObj same_name_urls) True initial) = Inr ()
   \<and> (\<exists>zf. archive (snd (run world_200 (JObj same_name_urls) True initial)) = Some zf \<and> closed zf
          \<and> filelist zf = [(''page.html'', ''<html>1</html>''), (''page.html'', ''<html>2</html>'')]
          \<and> zip_read zf ''page.html'' = Some ''<html>2</html>'')"
proof -
  let ?h = "JObj [(''User-Agent'', JStr ''x'')]"
  let ?pre = "[JStr ''https://a.test/x/page.html'']"
  let ?u = "JStr ''https://b.test/y/page.html''"
  let ?r = "\<lparr>status_code = 200, reason = ''OK'', text_body = ''<html>2</html>''\<rparr>"
  have h1: "ready world_200 same_name_urls ''data'' ?h (?pre @ ?u # [])" by code_simp
  have h2: "undisturbed world_200 ?h 0 (?pre @ ?u # [])" by code_simp
  have h3: "http_get world_200 (length ?pre) ?u ?h = Inr ?r" by code_simp
  have h4: "ok ?r" by (simp add: ok_def)
  have h5: "entry_name (host_ok world_200) ?u = Inr ''page.html''" by code_simp
  have h6: "''page.html'' \<notin> fst ` set (expected_entries world_200 ?h (Suc (length ?pre)) [])" by simp
  have e0: "entry_name (host_ok world_200) (JStr ''https://a.test/x/page.html'') = Inr ''page.html''"
    by code_simp
  have e: "expected_entries world_200 ?h 0 (?pre @ ?u # [])
            = [(''page.html'', ''<html>1</html>''), (''page.html'', ''<html>2</html>'')]"
    by code_simp
  have tb: "text_body ?r = ''<html>2</html>''" by simp
  note th = last_write_wins [OF h1 h2 h3 h4 h5 h6, of True initial, unfolded e tb]
  show ?thesis
    by (intro conjI h1 h2 h3 e0 h5 th [THEN conjunct1] th [THEN conjunct2])
qed

section \<open>The random sleep\<close>

















section \<open>The entry namer\<close>

text \<open>
  C6, as the specification states it, fails: the path that the URL parser returns
  excludes the parameters of the last segment (the text from its first \<^verbatim>\<open>;\<close>). The URL
  \<^verbatim>\<open>https://a.test/x/page.html;p=1\<close> has the last path segment \<^verbatim>\<open>page.html;p=1\<close> and is
  named \<^verbatim>\<open>page.html\<close>; the URL \<^verbatim>\<open>https://a.test/;x\<close> has the last path segment \<^verbatim>\<open>;x\<close>
  and is named \<^verbatim>\<open>index.html\<close>.
\<close>

theorem parameters_cut_from_entry_name_counterexample:
  "basename ''/x/page.html;p=1'' = ''page.html;p=1''
   \<and> entry_name (host_ok world_404) (JStr ''https://a.test/x/page.html;p=1'') = Inr ''page.html''
   \<and> basename ''/;x'' = '';x''
   \<and> entry_name (host_ok world_404) (JStr ''https://a.test/;x'') = Inr ''index.html''"
  by code_simp

text \<open>
  C6, amended. Take a URL made of the scheme \<open>http\<close> or \<open>https\<close>, a host, a path \<open>p\<close>
  (empty or starting with a slash) and possibly a query string or a fragment \<open>rest\<close>.
  Its entry name is the last segment of \<open>p\<close> up to its first \<^verbatim>\<open>;\<close>, as it stands in the
  URL (nothing is decoded), and the literal \<open>index.html\<close> when that text is empty, which
  is the case exactly when \<open>p\<close> is empty, ends in a slash, or has a last segment that
  begins with \<^verbatim>\<open>;\<close>. The last segment is what follows the last slash of \<open>p\<close>. (The host
  is free of \<^verbatim>\<open>/ ? # [ ]\<close>, host and path are free of tab and line breaks.)
\<close>

theorem entry_name_is_last_segment_without_parameters:
  assumes "sch = ''http'' \<or> sch = ''https''"
    and "\<forall>c \<in> set host. \<not> netloc_delim c \<and> \<not> unsafe_url_byte c \<and> c \<noteq> CHR ''['' \<and> c \<noteq> CHR '']''"
    and "p = [] \<or> hd p = CHR ''/''"
    and "\<forall>c \<in> set p. c \<noteq> CHR ''?'' \<and> c \<noteq> CHR ''#'' \<and> \<not> unsafe_url_byte c"
    and "rest = [] \<or> hd rest = CHR ''?'' \<or> hd rest = CHR ''#''"
  shows "entry_name hk (JStr (sch @ ''://'' @ host @ p @ rest))
           = Inr (if takeWhile (\<lambda>c. c \<noteq> CHR '';'') (basename p) = [] then ''index.html''
                  else takeWhile (\<lambda>c. c \<noteq> CHR '';'') (basename p))
         \<and> (\<exists>d. p = d @ basename p \<and> (d = [] \<or> last d = CHR ''/'') \<and> CHR ''/'' \<notin> set (basename p))
         \<and> (takeWhile (\<lambda>c. c \<noteq> CHR '';'') (basename p) = []
              \<longleftrightarrow> p = [] \<or> last p = CHR ''/'' \<or> (basename p \<noteq> [] \<and> hd (basename p) = CHR '';''))"
proof -
  let ?u = "sch @ ''://'' @ host @ p"
  let ?name = "takeWhile (\<lambda>c. c \<noteq> CHR '';'') (basename p)"
  have base: "entry_name hk (JStr ?u) = Inr (if ?name = [] then ''index.html'' else ?name)"
    unfolding entry_name_def url_path_plain [OF assms(1-4)]
    by (simp only: basename_without_params sum.case)
  have delim: "netloc_delim CHR ''?''" "netloc_delim CHR ''#''"
    by (simp_all add: netloc_delim_def)
  have host_free: "CHR ''?'' \<notin> set host" "CHR ''#'' \<notin> set host"
    using assms(2) delim by blast+
  have p_free: "CHR ''?'' \<notin> set p" "CHR ''#'' \<notin> set p"
    using assms(4) by blast+
  have sch_free: "CHR ''?'' \<notin> set sch" "CHR ''#'' \<notin> set sch"
    using assms(1) by auto
  have free: "CHR ''?'' \<notin> set ?u" "CHR ''#'' \<notin> set ?u"
    using host_free p_free sch_free by simp_all
  have name: "entry_name hk (JStr (?u @ rest)) = Inr (if ?name = [] then ''index.html'' else ?name)"
  proof (cases rest)
    case Nil
    with base show ?thesis by simp
  next
    case (Cons c r)
    with assms(5) have c: "c = CHR ''?'' \<or> c = CHR ''#''" by simp
    from entry_name_cut [OF c free, of hk r] base Cons show ?thesis by simp
  qed
  have assoc: "sch @ ''://'' @ host @ p @ rest = ?u @ rest" by simp
  have seg: "\<exists>d. p = d @ basename p \<and> (d = [] \<or> last d = CHR ''/'') \<and> CHR ''/'' \<notin> set (basename p)"
    using basename_suffix [of p] basename_no_slash [of p] by blast
  have "?name = [] \<longleftrightarrow> basename p = [] \<or> hd (basename p) = CHR '';''"
    by (simp add: takeWhile_eq_Nil_iff)
  also have "\<dots> \<longleftrightarrow> basename p = [] \<or> (basename p \<noteq> [] \<and> hd (basename p) = CHR '';'')"
    by blast
  finally have empty: "?name = [] \<longleftrightarrow> p = [] \<or> last p = CHR ''/'' \<or> (basename p \<noteq> [] \<and> hd (basename p) = CHR '';'')"
    by (simp only: basename_empty_iff disj_assoc)
  from name have name': "entry_name hk (JStr (sch @ ''://'' @ host @ p @ rest))
           = Inr (if ?name = [] then ''index.html'' else ?name)"
    by (simp only: assoc)
  show ?thesis
    by (intro conjI name' seg empty)
qed

theorem entry_name_is_last_segment_without_parameters_witness:
  "list_all (\<lambda>c. \<not> netloc_delim c \<and> \<not> unsafe_url_byte c \<and> c \<noteq> CHR ''['' \<and> c \<noteq> CHR '']'') ''a.test''
   \<and> hd ''/docs/a%20b.html;v=2'' = CHR ''/''
   \<and> list_all (\<lambda>c. c \<noteq> CHR ''?'' \<and> c \<noteq> CHR ''#'' \<and> \<not> unsafe_url_byte c) ''/docs/a%20b.html;v=2''
   \<and> hd ''?q=1#top'' = CHR ''?''
   \<and> entry_name (host_ok world_404) (JStr ''https://a.test/docs/a%20b.html;v=2?q=1#top'') = Inr ''a%20b.html''
   \<and> entry_name (host_ok world_404) (JStr ''https://a.test'') = Inr ''index.html''
   \<and> entry_name (host_ok world_404) (JStr ''https://a.test/'') = Inr ''index.html''"
proof -
  let ?okh = "\<lambda>c. \<not> netloc_delim c \<and> \<not> unsafe_url_byte c \<and> c \<noteq> CHR ''['' \<and> c \<noteq> CHR '']''"
  let ?okp = "\<lambda>c. c \<noteq> CHR ''?'' \<and> c \<noteq> CHR ''#'' \<and> \<not> unsafe_url_byte c"
  have s: "''https'' = ''http'' \<or> ''https'' = ''https''" by simp
  have h: "list_all ?okh ''a.test''"
    by (simp add: netloc_delim_def unsafe_url_byte_def)
  then have h': "\<forall>c \<in> set ''a.test''. ?okh c" by (simp only: list_all_iff)
  have p1: "hd ''/docs/a%20b.html;v=2'' = CHR ''/''" by simp
  then have p1': "''/docs/a%20b.html;v=2'' = [] \<or> hd ''/docs/a%20b.html;v=2'' = CHR ''/''" by (rule disjI2)
  have p2: "list_all ?okp ''/docs/a%20b.html;v=2''"
    by (simp add: unsafe_url_byte_def)
  then have p2': "\<forall>c \<in> set ''/docs/a%20b.html;v=2''. ?okp c" by (simp only: list_all_iff)
  have r1: "hd ''?q=1#top'' = CHR ''?''" by simp
  then have r1': "''?q=1#top'' = [] \<or> hd ''?q=1#top'' = CHR ''?'' \<or> hd ''?q=1#top'' = CHR ''#''" by simp
  have e0: "([]::string) = [] \<or> hd ([]::string) = CHR ''/''" by simp
  have e1: "\<forall>c \<in> set ([]::string). ?okp c" by simp
  have e2: "([]::string) = [] \<or> hd ([]::string) = CHR ''?'' \<or> hd ([]::string) = CHR ''#''" by simp
  have q0: "''/'' = [] \<or> hd ''/'' = CHR ''/''" by simp
  have q1: "\<forall>c \<in> set ''/''. ?okp c" by (simp add: unsafe_url_byte_def)
  have b1: "basename ''/docs/a%20b.html;v=2'' = ''a%20b.html;v=2''" by code_simp
  have b2: "basename [] = []" by (simp add: basename_def)
  have b3: "basename ''/'' = []" by code_simp
  from entry_name_is_last_segment_without_parameters [OF s h' p1' p2' r1', of "host_ok world_404", THEN conjunct1]
  have c1: "entry_name (host_ok world_404) (JStr ''https://a.test/docs/a%20b.html;v=2?q=1#top'') = Inr ''a%20b.html''"
    by (simp add: b1)
  from entry_name_is_last_segment_without_parameters [OF s h' e0 e1 e2, of "host_ok world_404", THEN conjunct1]
  have c2: "entry_name (host_ok world_404) (JStr ''https://a.test'') = Inr ''index.html''"
    by (simp add: b2)
  from entry_name_is_last_segment_without_parameters [OF s h' q0 q1 e2, of "host_ok world_404", THEN conjunct1]
  have c3: "entry_name (host_ok world_404) (JStr ''https://a.test/'') = Inr ''index.html''"
    by (simp add: b3)
  show ?thesis by (intro conjI h p1 p2 r1 c1 c2 c3)
qed

section \<open>Entry names and the root of the archive\<close>

lemma at_root_emit [simp]: "at_root (emit e st) = at_root st"
  by (simp add: at_root_def)

lemma at_root_logging [simp]: "at_root (logging l f a st) = at_root st"
  by (simp add: at_root_def)

lemma at_root_zip_open: "at_root (zip_open p st)"
  by (simp add: at_root_def zip_open_def)

lemma at_root_zip_close: "at_root st \<Longrightarrow> at_root (zip_close st)"
  by (auto simp: at_root_def zip_close_def split: option.splits)

lemma at_root_writestr:
  "at_root st \<Longrightarrow> CHR ''/'' \<notin> set n \<Longrightarrow> at_root (snd (writestr w i n d st))"
  by (auto simp: at_root_def writestr_def split: option.splits)

lemma at_root_loop_body:
  assumes "at_root st"
  shows "at_root (snd (loop_body w ns config i url st))"
  using assms unfolding loop_body_def Let_def
  by (auto split: sum.splits intro!: at_root_writestr simp: basename_no_slash)

lemma at_root_fetch_loop:
  "at_root st \<Longrightarrow> at_root (snd (fetch_loop w ns config i us st))"
proof (induction us arbitrary: i st)
  case Nil
  then show ?case by simp
next
  case (Cons u us)
  obtain r st1 where b: "loop_body w ns config i u st = (r, st1)"
    by (cases "loop_body w ns config i u st")
  from at_root_loop_body [OF Cons.prems, of w ns config i u] b have a1: "at_root st1" by simp
  show ?case
  proof (cases r)
    case (Inl e)
    with b a1 show ?thesis by simp
  next
    case (Inr x)
    with Cons.IH [OF a1, of "Suc i"] b show ?thesis by simp
  qed
qed

lemma get_check_datadir_archive:
  "archive (snd (get_check_datadir w config st)) = archive st"
  unfolding get_check_datadir_def Let_def by (auto split: sum.splits)

lemma get_check_zipfilename_archive:
  "archive (snd (get_check_zipfilename w dd st)) = archive st"
  unfolding get_check_zipfilename_def Let_def by auto

lemma at_root_run:
  assumes "at_root st"
  shows "at_root (snd (run w config ns st))"
proof (cases "check_config config")
  case (Inl e)
  with assms show ?thesis by (simp add: run_def)
next
  case (Inr x)
  then have cc: "check_config config = Inr ()" by simp
  from check_config_urls [OF cc] obtain urls n where
    u: "subscript config ''urls'' = Inr urls" "py_len urls = Inr n" by blast
  obtain r1 st1 where d: "get_check_datadir w config st = (r1, st1)"
    by (cases "get_check_datadir w config st")
  from get_check_datadir_archive [of w config st] d assms have a1: "at_root st1"
    by (simp add: at_root_def)
  show ?thesis
  proof (cases r1)
    case (Inl e)
    with cc d a1 show ?thesis by (simp add: run_def)
  next
    case r1: (Inr dd)
    obtain r2 st2 where z: "get_check_zipfilename w dd st1 = (r2, st2)"
      by (cases "get_check_zipfilename w dd st1")
    from get_check_zipfilename_archive [of w dd st1] z a1 have a2: "at_root st2"
      by (simp add: at_root_def)
    show ?thesis
    proof (cases r2)
      case (Inl e)
      with cc d r1 z a2 show ?thesis by (simp add: run_def)
    next
      case r2: (Inr f)
      let ?st3 = "zip_open f (logging INFO ''#URLs: %d'' [JNum (int n)] st2)"
      let ?body = "\<lambda>s. case py_iter urls of
                      Inl e \<Rightarrow> (Inl e, s)
                    | Inr us \<Rightarrow> fetch_loop w ns config 0 us s"
      have a3: "at_root ?st3" by (rule at_root_zip_open)
      have a4: "at_root (snd (?body ?st3))"
      proof (cases "py_iter urls")
        case (Inl e)
        with a3 show ?thesis by simp
      next
        case (Inr us)
        with at_root_fetch_loop [OF a3, of w ns config 0 us] show ?thesis by simp
      qed
      have r: "run w config ns st = (fst (?body ?st3), zip_close (snd (?body ?st3)))"
        by (simp add: run_def cc d r1 z r2 u with_ZipFile_def split: prod.splits)
      show ?thesis unfolding r using at_root_zip_close [OF a4] by simp
    qed
  qed
qed

text \<open>
  C10. The entry name depends on the path component only: cutting a URL at its first
  \<^verbatim>\<open>?\<close> or \<^verbatim>\<open>#\<close> (that is, dropping the query string, the fragment or both) leaves the
  name as it is, so that \<^verbatim>\<open>https://h/a/b.html?x=1#f\<close> is named \<^verbatim>\<open>b.html\<close>. An entry name
  never holds a path separator, and after any run every entry of the archive sits at
  its root.
\<close>

theorem entry_name_from_path_only:
  "(CHR ''?'' \<notin> set u \<and> CHR ''#'' \<notin> set u \<longrightarrow>
      entry_name hk (JStr (u @ CHR ''?'' # q)) = entry_name hk (JStr u)
      \<and> entry_name hk (JStr (u @ CHR ''#'' # f)) = entry_name hk (JStr u))
   \<and> entry_name hk (JStr ''https://h/a/b.html?x=1#f'') = Inr ''b.html''
   \<and> (entry_name hk url = Inr n \<longrightarrow> CHR ''/'' \<notin> set n)
   \<and> at_root (snd (run w config no_sleep initial))"
proof (intro conjI impI)
  assume "CHR ''?'' \<notin> set u \<and> CHR ''#'' \<notin> set u"
  then have u: "CHR ''?'' \<notin> set u" "CHR ''#'' \<notin> set u" by simp_all
  show "entry_name hk (JStr (u @ CHR ''?'' # q)) = entry_name hk (JStr u)"
    by (rule entry_name_cut [OF _ u]) simp
  show "entry_name hk (JStr (u @ CHR ''#'' # f)) = entry_name hk (JStr u)"
    by (rule entry_name_cut [OF _ u]) simp
next
  show "entry_name hk (JStr ''https://h/a/b.html?x=1#f'') = Inr ''b.html''"
    by code_simp
next
  assume "entry_name hk url = Inr n"
  then show "CHR ''/'' \<notin> set n" by (rule entry_name_no_slash)
next
  have "at_root initial" by (simp add: at_root_def initial_def)
  then show "at_root (snd (run w config no_sleep initial))" by (rule at_root_run)
qed

theorem entry_name_from_path_only_witness:
  "CHR ''?'' \<notin> set ''https://h/a/b.html'' \<and> CHR ''#'' \<notin> set ''https://h/a/b.html''
   \<and> entry_name (\<lambda>h. True) (JStr (''https://h/a/b.html'' @ CHR ''?'' # ''x=1#f''))
       = entry_name (\<lambda>h. True) (JStr ''https://h/a/b.html'')
   \<and> entry_name (\<lambda>h. True) (JStr ''https://h/a/b.html'') = Inr ''b.html''
   \<and> CHR ''/'' \<notin> set ''b.html''
   \<and> at_root (snd (run world_200 example_config True initial))
   \<and> map_option (map fst \<circ> filelist) (archive (snd (run world_200 example_config True initial)))
       = Some [''page1.html'', ''index.html'']"
proof -
  note th = entry_name_from_path_only
    [of "''https://h/a/b.html''" "\<lambda>h. True" "''x=1#f''" "''f''" "JStr ''https://h/a/b.html''" "''b.html''"
        world_200 example_config True]
  have h1: "CHR ''?'' \<notin> set ''https://h/a/b.html'' \<and> CHR ''#'' \<notin> set ''https://h/a/b.html''"
    by simp
  have h2: "entry_name (\<lambda>h. True) (JStr ''https://h/a/b.html'') = Inr ''b.html''"
    by code_simp
  have names: "map_option (map fst \<circ> filelist) (archive (snd (run world_200 example_config True initial)))
       = Some [''page1.html'', ''index.html'']"
    by code_simp
  note c1 = th [THEN conjunct1, rule_format, OF h1, THEN conjunct1]
  note c3 = th [THEN conjunct2, THEN conjunct2, THEN conjunct1, rule_format, OF h2]
  note c4 = th [THEN conjunct2, THEN conjunct2, THEN conjunct2]
  from h1 have h1a: "CHR ''?'' \<notin> set ''https://h/a/b.html''"
    and h1b: "CHR ''#'' \<notin> set ''https://h/a/b.html''" by blast+
  show ?thesis by (intro conjI h1a h1b c1 h2 c3 c4 names)
qed

end
